theory Spec2Isabelle
  imports Complex_Main
begin

section \<open>DynamicStringBuffer: a growable byte buffer with inline storage\<close>

text \<open>
  The class \<^verbatim>\<open>DynamicStringBuffer\<close> of \<^verbatim>\<open>StringBuilderPool.h\<close> and
  \<^verbatim>\<open>StringBuilderPool.cpp\<close>. Its five members become the five fields of a record.
  The inline array \<^verbatim>\<open>m_stackBuffer\<close> and the heap array behind
  \<^verbatim>\<open>m_heapBuffer\<close> are lists of bytes; a null \<^verbatim>\<open>unique_ptr\<close> is
  \<open>None\<close>. Values of type \<^verbatim>\<open>size_t\<close> are natural numbers: they count bytes that
  are present in memory, so no sum of two of them leaves the range of the type.
  An allocation is taken to succeed (\<^verbatim>\<open>std::bad_alloc\<close> is not modelled).
\<close>

record DynamicStringBuffer =
  m_stackBuffer :: "char list"
  m_heapBuffer :: "char list option"
  m_size :: nat
  m_capacity :: nat
  m_onHeap :: bool

definition STACK_BUFFER_SIZE :: nat where
  "STACK_BUFFER_SIZE = 256"

text \<open>
  \<^verbatim>\<open>static_cast<size_t>( m_capacity * GROWTH_FACTOR )\<close> with the factor 1.5: the
  product is formed in double precision and truncated. For every capacity below
  \<open>2 ^ 51\<close> the product is exact, and the truncation is the integer quotient below.
\<close>

definition grown :: "nat \<Rightarrow> nat" where
  "grown c = (c * 3) div 2"

text \<open>\<^verbatim>\<open>std::make_unique<char[]>( n )\<close> value-initialises the array: \<open>n\<close> zero bytes.\<close>

definition make_unique :: "nat \<Rightarrow> char list" where
  "make_unique n = replicate n (CHR 0x00)"

text \<open>
  \<^verbatim>\<open>std::memcpy( dst + off, src, n )\<close>: the bytes \<open>off ..< off + n\<close> of the
  destination array are replaced by the first \<open>n\<close> bytes of the source.
\<close>

definition memcpy :: "char list \<Rightarrow> nat \<Rightarrow> char list \<Rightarrow> nat \<Rightarrow> char list" where
  "memcpy dst off src n = take off dst @ take n src @ drop (off + n) dst"

text \<open>
  The default constructor. The inline array is not initialised by it; its indeterminate
  content is the parameter \<open>uninit\<close>, one byte for each index.
\<close>

definition DynamicStringBuffer_new :: "(nat \<Rightarrow> char) \<Rightarrow> DynamicStringBuffer" where
  "DynamicStringBuffer_new uninit =
     \<lparr> m_stackBuffer = map uninit [0..<STACK_BUFFER_SIZE],
       m_heapBuffer = None,
       m_size = 0,
       m_capacity = STACK_BUFFER_SIZE,
       m_onHeap = False \<rparr>"

text \<open>The constructor with an initial capacity.\<close>

definition DynamicStringBuffer_sized :: "(nat \<Rightarrow> char) \<Rightarrow> nat \<Rightarrow> DynamicStringBuffer" where
  "DynamicStringBuffer_sized uninit initialCapacity =
     (let b = DynamicStringBuffer_new uninit
      in if initialCapacity > STACK_BUFFER_SIZE
         then b\<lparr> m_heapBuffer := Some (make_unique initialCapacity),
                 m_capacity := initialCapacity,
                 m_onHeap := True \<rparr>
         else b)"

text \<open>
  \<^verbatim>\<open>currentBuffer()\<close>: the active array. Reading through a null heap pointer has no
  defined result in the source; the model reads an empty array there.
\<close>

definition heapArray :: "DynamicStringBuffer \<Rightarrow> char list" where
  "heapArray b = (case m_heapBuffer b of Some h \<Rightarrow> h | None \<Rightarrow> [])"

definition currentBuffer :: "DynamicStringBuffer \<Rightarrow> char list" where
  "currentBuffer b = (if m_onHeap b then heapArray b else m_stackBuffer b)"

text \<open>A write through \<^verbatim>\<open>currentBuffer()\<close> replaces the active array.\<close>

definition storeCurrent :: "char list \<Rightarrow> DynamicStringBuffer \<Rightarrow> DynamicStringBuffer" where
  "storeCurrent a b =
     (if m_onHeap b then b\<lparr> m_heapBuffer := Some a \<rparr> else b\<lparr> m_stackBuffer := a \<rparr>)"

definition size_buffer :: "DynamicStringBuffer \<Rightarrow> nat" where
  "size_buffer b = m_size b"

definition capacity :: "DynamicStringBuffer \<Rightarrow> nat" where
  "capacity b = m_capacity b"

definition isEmpty :: "DynamicStringBuffer \<Rightarrow> bool" where
  "isEmpty b = (m_size b = 0)"

definition clear :: "DynamicStringBuffer \<Rightarrow> DynamicStringBuffer" where
  "clear b = b\<lparr> m_size := 0 \<rparr>"

definition ensureCapacity :: "nat \<Rightarrow> DynamicStringBuffer \<Rightarrow> DynamicStringBuffer" where
  "ensureCapacity needed_capacity b =
     (if needed_capacity \<le> m_capacity b then b
      else
        let new_capacity = max needed_capacity (grown (m_capacity b))
        in if \<not> m_onHeap b \<and> new_capacity \<le> STACK_BUFFER_SIZE then b
           else if \<not> m_onHeap b then
             b\<lparr> m_heapBuffer :=
                   Some (if m_size b > 0
                         then memcpy (make_unique new_capacity) 0 (m_stackBuffer b) (m_size b)
                         else make_unique new_capacity),
                 m_onHeap := True,
                 m_capacity := new_capacity \<rparr>
           else
             b\<lparr> m_heapBuffer :=
                   Some (if m_size b > 0
                         then memcpy (make_unique new_capacity) 0 (heapArray b) (m_size b)
                         else make_unique new_capacity),
                 m_capacity := new_capacity \<rparr>)"

definition reserve :: "nat \<Rightarrow> DynamicStringBuffer \<Rightarrow> DynamicStringBuffer" where
  "reserve newCapacity b =
     (if newCapacity > m_capacity b then ensureCapacity newCapacity b else b)"

definition resize :: "nat \<Rightarrow> DynamicStringBuffer \<Rightarrow> DynamicStringBuffer" where
  "resize newSize b = (ensureCapacity newSize b)\<lparr> m_size := newSize \<rparr>"

text \<open>
  A \<^verbatim>\<open>std::string_view\<close> is a pointer and a length. The bytes it points to lie
  either outside the active array of the buffer it is appended to (\<open>External\<close>, with
  those bytes; \<^verbatim>\<open>append\<close> touches no memory but the arrays of its buffer), or inside
  that array (\<open>Internal off n undef\<close>: the \<open>n\<close> bytes from offset \<open>off\<close>, as
  \<^verbatim>\<open>toStringView()\<close> and \<^verbatim>\<open>data()\<close> hand out). Where the source leaves a read
  through the view undefined, the bytes read are \<open>undef 0\<close>, \<open>undef 1\<close>, and so on:
  whatever that memory holds by then.
\<close>

datatype string_view = External string | Internal nat nat "nat \<Rightarrow> char"

definition view_size :: "string_view \<Rightarrow> nat" where
  "view_size v = (case v of External s \<Rightarrow> length s | Internal off n undef \<Rightarrow> n)"

text \<open>
  Whether \<^verbatim>\<open>ensureCapacity( needed )\<close> allocates a new heap array: the two early
  returns of the function are not taken.
\<close>

definition reallocates :: "nat \<Rightarrow> DynamicStringBuffer \<Rightarrow> bool" where
  "reallocates needed b \<longleftrightarrow>
     \<not> needed \<le> m_capacity b \<and>
     \<not> (\<not> m_onHeap b \<and> max needed (grown (m_capacity b)) \<le> STACK_BUFFER_SIZE)"

text \<open>
  What \<^verbatim>\<open>std::memcpy\<close> reads through the view in \<^verbatim>\<open>append\<close>, after
  \<^verbatim>\<open>ensureCapacity( needed )\<close> has run on the buffer \<open>b\<close>. A view into the buffer
  was taken of the array that was active before the call.
  \<^item> The storage stayed in place: the view lies in the active array, and the read is
    defined when the view is inside the array and does not overlap the destination
    \<open>m_size ..< m_size + n\<close> of the copy.
  \<^item> An inline buffer was promoted: the view lies in the inline array, which is a
    member of the object and still holds its bytes.
  \<^item> A heap array was replaced: \<^verbatim>\<open>m_heapBuffer = std::move( new_buffer )\<close> has freed
    the array the view points into, and the read is undefined.
\<close>

definition view_read :: "string_view \<Rightarrow> nat \<Rightarrow> DynamicStringBuffer \<Rightarrow> string" where
  "view_read v needed b =
     (case v of
        External s \<Rightarrow> s
      | Internal off n undef \<Rightarrow>
          if \<not> reallocates needed b then
            if off + n \<le> length (currentBuffer b) \<and> (off + n \<le> m_size b \<or> m_size b + n \<le> off)
            then take n (drop off (currentBuffer b))
            else map undef [0..<n]
          else if \<not> m_onHeap b then
            if off + n \<le> length (m_stackBuffer b)
            then take n (drop off (m_stackBuffer b))
            else map undef [0..<n]
          else map undef [0..<n])"

text \<open>
  \<^verbatim>\<open>append( std::string_view )\<close>. The overload for \<^verbatim>\<open>const std::string&\<close> forwards
  a view of the string, whose bytes the string owns.
\<close>

definition append_view :: "string_view \<Rightarrow> DynamicStringBuffer \<Rightarrow> DynamicStringBuffer" where
  "append_view str b =
     (if view_size str \<noteq> 0 then
        let new_size = m_size b + view_size str;
            b1 = ensureCapacity new_size b;
            b2 = storeCurrent
                   (memcpy (currentBuffer b1) (m_size b1) (view_read str new_size b)
                      (view_size str)) b1
        in b2\<lparr> m_size := new_size \<rparr>
      else b)"

definition append_string :: "string \<Rightarrow> DynamicStringBuffer \<Rightarrow> DynamicStringBuffer" where
  "append_string str b = append_view (External str) b"

text \<open>
  A \<^verbatim>\<open>const char*\<close> is null, or points to memory outside the active array that
  holds the given bytes, or points to offset \<open>off\<close> of the active array.
  \<^verbatim>\<open>std::strlen\<close> counts the bytes in front of the first zero byte. (Where the
  memory holds no zero byte \<^verbatim>\<open>strlen\<close> reads past its end, which the source leaves
  undefined; the model stops at the end.) The overload for \<^verbatim>\<open>const char*\<close> does
  nothing for a null pointer and otherwise appends the view of \<^verbatim>\<open>strlen( str )\<close>
  bytes at the pointer.
\<close>

datatype c_string = Null | Outside string | Inside nat "nat \<Rightarrow> char"

definition strlen :: "string \<Rightarrow> nat" where
  "strlen str = length (takeWhile (\<lambda>c. c \<noteq> CHR 0x00) str)"


definition append_cstr :: "c_string \<Rightarrow> DynamicStringBuffer \<Rightarrow> DynamicStringBuffer" where
  "append_cstr str b =
     (case str of
        Null \<Rightarrow> b
      | Outside s \<Rightarrow> append_view (External (take (strlen s) s)) b
      | Inside off undef \<Rightarrow>
          append_view (Internal off (strlen (drop off (currentBuffer b))) undef) b)"

definition push_back :: "char \<Rightarrow> DynamicStringBuffer \<Rightarrow> DynamicStringBuffer" where
  "push_back c b =
     (let b1 = ensureCapacity (m_size b + 1) b;
          b2 = storeCurrent ((currentBuffer b1)[m_size b1 := c]) b1
      in b2\<lparr> m_size := m_size b2 + 1 \<rparr>)"

definition toString :: "DynamicStringBuffer \<Rightarrow> string" where
  "toString b = take (m_size b) (currentBuffer b)"

subsection \<open>Copying and moving a buffer\<close>

text \<open>
  The copy constructor, the move constructor and the two assignment operators. A
  constructor builds a new object, whose inline array starts indeterminate
  (\<open>uninit\<close>). The move operations change the source as well, so they return the pair
  of the destination and the source after the call. The assignment operators are
  modelled for two distinct objects; for \<^verbatim>\<open>this == &other\<close> they leave the object
  as it is.
\<close>

definition DynamicStringBuffer_copy :: "(nat \<Rightarrow> char) \<Rightarrow> DynamicStringBuffer \<Rightarrow> DynamicStringBuffer" where
  "DynamicStringBuffer_copy uninit other =
     (let b = \<lparr> m_stackBuffer = map uninit [0..<STACK_BUFFER_SIZE],
                 m_heapBuffer = None,
                 m_size = m_size other,
                 m_capacity = m_capacity other,
                 m_onHeap = m_onHeap other \<rparr>
      in if m_onHeap b
         then b\<lparr> m_heapBuffer :=
                   Some (memcpy (make_unique (m_capacity b)) 0 (heapArray other) (m_size b)) \<rparr>
         else b\<lparr> m_stackBuffer :=
                   memcpy (m_stackBuffer b) 0 (m_stackBuffer other) (m_size b) \<rparr>)"

definition moved_from :: "DynamicStringBuffer \<Rightarrow> DynamicStringBuffer" where
  "moved_from other =
     other\<lparr> m_heapBuffer := None, m_size := 0,
            m_capacity := STACK_BUFFER_SIZE, m_onHeap := False \<rparr>"

definition DynamicStringBuffer_move ::
  "(nat \<Rightarrow> char) \<Rightarrow> DynamicStringBuffer \<Rightarrow> DynamicStringBuffer \<times> DynamicStringBuffer" where
  "DynamicStringBuffer_move uninit other =
     (let b = \<lparr> m_stackBuffer = map uninit [0..<STACK_BUFFER_SIZE],
                 m_heapBuffer = m_heapBuffer other,
                 m_size = m_size other,
                 m_capacity = m_capacity other,
                 m_onHeap = m_onHeap other \<rparr>;
          b1 = (if \<not> m_onHeap b
                then b\<lparr> m_stackBuffer :=
                          memcpy (m_stackBuffer b) 0 (m_stackBuffer other) (m_size b) \<rparr>
                else b)
      in (b1, moved_from other))"

definition copy_assign :: "DynamicStringBuffer \<Rightarrow> DynamicStringBuffer \<Rightarrow> DynamicStringBuffer" where
  "copy_assign this other =
     (let t1 =
        (if m_onHeap other then
           let t0 = (if \<not> m_onHeap this \<or> m_capacity this < m_capacity other
                     then this\<lparr> m_heapBuffer := Some (make_unique (m_capacity other)),
                                m_capacity := m_capacity other,
                                m_onHeap := True \<rparr>
                     else this)
           in t0\<lparr> m_heapBuffer :=
                    Some (memcpy (heapArray t0) 0 (heapArray other) (m_size other)) \<rparr>
         else
           let t0 = (if m_onHeap this
                     then this\<lparr> m_heapBuffer := None,
                                m_capacity := STACK_BUFFER_SIZE,
                                m_onHeap := False \<rparr>
                     else this)
           in t0\<lparr> m_stackBuffer :=
                    memcpy (m_stackBuffer t0) 0 (m_stackBuffer other) (m_size other) \<rparr>)
      in t1\<lparr> m_size := m_size other \<rparr>)"

definition move_assign ::
  "DynamicStringBuffer \<Rightarrow> DynamicStringBuffer \<Rightarrow> DynamicStringBuffer \<times> DynamicStringBuffer" where
  "move_assign this other =
     (let t0 = this\<lparr> m_heapBuffer := m_heapBuffer other,
                     m_size := m_size other,
                     m_capacity := m_capacity other,
                     m_onHeap := m_onHeap other \<rparr>;
          t1 = (if \<not> m_onHeap t0
                then t0\<lparr> m_stackBuffer :=
                           memcpy (m_stackBuffer t0) 0 (m_stackBuffer other) (m_size t0) \<rparr>
                else t0)
      in (t1, moved_from other))"

subsection \<open>Sequences of calls on one buffer\<close>

text \<open>
  The four ways of appending, as data, and what a sequence of such calls does to a
  buffer.
\<close>

datatype append_call =
    AppendView string_view
  | AppendString string
  | AppendCStr c_string
  | PushBack char

fun apply_call :: "append_call \<Rightarrow> DynamicStringBuffer \<Rightarrow> DynamicStringBuffer" where
  "apply_call (AppendView v) b = append_view v b"
| "apply_call (AppendString s) b = append_string s b"
| "apply_call (AppendCStr p) b = append_cstr p b"
| "apply_call (PushBack c) b = push_back c b"

fun apply_calls :: "append_call list \<Rightarrow> DynamicStringBuffer \<Rightarrow> DynamicStringBuffer" where
  "apply_calls [] b = b"
| "apply_calls (c # cs) b = apply_calls cs (apply_call c b)"

text \<open>
  The byte sequence a call hands over, read when the call is made on the buffer \<open>b\<close>:
  the bytes of the view or string, the bytes of the C string in front of its terminator
  (none for a null pointer), or the one character of \<^verbatim>\<open>push_back\<close>. For a sequence
  of calls, the concatenation of what each call hands over to the buffer it is made on.
\<close>

definition view_bytes :: "string_view \<Rightarrow> DynamicStringBuffer \<Rightarrow> string" where
  "view_bytes v b =
     (case v of
        External s \<Rightarrow> s
      | Internal off n undef \<Rightarrow> take n (drop off (currentBuffer b)))"

fun call_bytes :: "append_call \<Rightarrow> DynamicStringBuffer \<Rightarrow> string" where
  "call_bytes (AppendView v) b = view_bytes v b"
| "call_bytes (AppendString s) b = s"
| "call_bytes (AppendCStr Null) b = []"
| "call_bytes (AppendCStr (Outside s)) b = takeWhile (\<lambda>c. c \<noteq> CHR 0x00) s"
| "call_bytes (AppendCStr (Inside off undef)) b =
     takeWhile (\<lambda>c. c \<noteq> CHR 0x00) (drop off (currentBuffer b))"
| "call_bytes (PushBack c) b = [c]"

fun bytes_of_calls :: "append_call list \<Rightarrow> DynamicStringBuffer \<Rightarrow> string" where
  "bytes_of_calls [] b = []"
| "bytes_of_calls (c # cs) b = call_bytes c b @ bytes_of_calls cs (apply_call c b)"

text \<open>
  A call whose bytes lie outside the buffer it is made on, and a call that is safe on
  the buffer \<open>b\<close>: its bytes lie outside, or they lie within the live bytes of \<open>b\<close>
  and \<open>b\<close> is not a heap buffer that the call has to reallocate.
\<close>

fun external_call :: "append_call \<Rightarrow> bool" where
  "external_call (AppendView (External s)) = True"
| "external_call (AppendView (Internal off n undef)) = False"
| "external_call (AppendString s) = True"
| "external_call (AppendCStr Null) = True"
| "external_call (AppendCStr (Outside s)) = True"
| "external_call (AppendCStr (Inside off undef)) = False"
| "external_call (PushBack c) = True"

definition safe_view :: "string_view \<Rightarrow> DynamicStringBuffer \<Rightarrow> bool" where
  "safe_view v b =
     (case v of
        External s \<Rightarrow> True
      | Internal off n undef \<Rightarrow>
          off + n \<le> m_size b \<and> \<not> (m_onHeap b \<and> m_capacity b < m_size b + n))"

fun safe_call :: "append_call \<Rightarrow> DynamicStringBuffer \<Rightarrow> bool" where
  "safe_call (AppendView v) b = safe_view v b"
| "safe_call (AppendString s) b = True"
| "safe_call (AppendCStr Null) b = True"
| "safe_call (AppendCStr (Outside s)) b = True"
| "safe_call (AppendCStr (Inside off undef)) b =
     safe_view (Internal off (strlen (drop off (currentBuffer b))) undef) b"
| "safe_call (PushBack c) b = True"

fun safe_calls :: "append_call list \<Rightarrow> DynamicStringBuffer \<Rightarrow> bool" where
  "safe_calls [] b = True"
| "safe_calls (c # cs) b = (safe_call c b \<and> safe_calls cs (apply_call c b))"

text \<open>The other mutating calls of the public interface, to state what no call undoes.\<close>

datatype mutation =
    Append append_call
  | Clear
  | Reserve nat
  | Resize nat

fun mutate :: "mutation \<Rightarrow> DynamicStringBuffer \<Rightarrow> DynamicStringBuffer" where
  "mutate (Append c) b = apply_call c b"
| "mutate Clear b = clear b"
| "mutate (Reserve n) b = reserve n b"
| "mutate (Resize n) b = resize n b"

fun mutate_all :: "mutation list \<Rightarrow> DynamicStringBuffer \<Rightarrow> DynamicStringBuffer" where
  "mutate_all [] b = b"
| "mutate_all (m # ms) b = mutate_all ms (mutate m b)"

subsection \<open>The representation invariant\<close>

text \<open>
  What every constructor establishes and every member function keeps: the inline array
  has its declared length, the live bytes fit the capacity, the capacity is at least the
  inline one, the active array is as long as the capacity says, a buffer on the heap has
  an allocation, and an inline buffer has the inline capacity.
\<close>

definition buffer_inv :: "DynamicStringBuffer \<Rightarrow> bool" where
  "buffer_inv b \<longleftrightarrow>
     length (m_stackBuffer b) = STACK_BUFFER_SIZE \<and>
     m_size b \<le> m_capacity b \<and>
     STACK_BUFFER_SIZE \<le> m_capacity b \<and>
     length (currentBuffer b) = m_capacity b \<and>
     (m_onHeap b \<longrightarrow> m_heapBuffer b \<noteq> None) \<and>
     (\<not> m_onHeap b \<longrightarrow> m_capacity b = STACK_BUFFER_SIZE)"

text \<open>A sample of indeterminate memory, for evaluating the model on concrete inputs.\<close>

definition sample_uninit :: "nat \<Rightarrow> char" where
  "sample_uninit i = (if even i then CHR ''#'' else CHR 0x00)"

section \<open>DynamicStringBufferPool: thread-local slot, shared pool, fresh allocation\<close>

text \<open>
  \<^verbatim>\<open>DynamicStringBufferPool.h\<close> and \<^verbatim>\<open>DynamicStringBufferPool.cpp\<close>. Every buffer
  object has one owner at a time (a lease, the slot of a thread, or the shared vector),
  so a \<^verbatim>\<open>DynamicStringBuffer*\<close> is modelled by the buffer it points to, a null
  pointer by \<open>None\<close>, and \<^verbatim>\<open>delete\<close> by dropping the value. The state holds the
  members of the singleton pool and the variable \<^verbatim>\<open>t_cachedBuffer\<close>, which is
  \<^verbatim>\<open>thread_local\<close>: one slot for each thread, a thread being a natural number.
  Each member function takes the calling thread and runs as one step (the interleaving
  of several threads inside one call is not modelled). The counters are
  \<^verbatim>\<open>std::atomic<uint64_t>\<close>; they are natural numbers here, as a counter that grows
  by one for each request does not reach \<open>2 ^ 64\<close>.
\<close>

record PoolStatistics =
  threadLocalHits :: nat
  dynamicStringBufferPoolHits :: nat
  newAllocations :: nat
  totalRequests :: nat

record pool_state =
  m_pool :: "DynamicStringBuffer list"
  m_initialCapacity :: nat
  m_maximumRetainedCapacity :: nat
  m_maxPoolSize :: nat
  m_stats :: PoolStatistics
  t_cachedBuffer :: "nat \<Rightarrow> DynamicStringBuffer option"

definition reset :: "PoolStatistics \<Rightarrow> PoolStatistics" where
  "reset st = st\<lparr> threadLocalHits := 0,
                   dynamicStringBufferPoolHits := 0,
                   newAllocations := 0,
                   totalRequests := 0 \<rparr>"

text \<open>The constructor, and the singleton \<^verbatim>\<open>dynamicStringBufferPool()\<close> built with
  \<^verbatim>\<open>pool{ 256, 2048, 24 }\<close>; no thread has a cached buffer yet.\<close>

definition DynamicStringBufferPool_new :: "nat \<Rightarrow> nat \<Rightarrow> nat \<Rightarrow> pool_state" where
  "DynamicStringBufferPool_new initialCapacity maximumRetainedCapacity maxPoolSize =
     \<lparr> m_pool = [],
       m_initialCapacity = initialCapacity,
       m_maximumRetainedCapacity = maximumRetainedCapacity,
       m_maxPoolSize = maxPoolSize,
       m_stats = \<lparr> threadLocalHits = 0, dynamicStringBufferPoolHits = 0,
                   newAllocations = 0, totalRequests = 0 \<rparr>,
       t_cachedBuffer = (\<lambda>t. None) \<rparr>"

definition dynamicStringBufferPool :: pool_state where
  "dynamicStringBufferPool = DynamicStringBufferPool_new 256 2048 24"

text \<open>
  \<^verbatim>\<open>get()\<close>, called by thread \<open>t\<close>. The vector \<^verbatim>\<open>m_pool\<close> is a list whose last
  element is \<^verbatim>\<open>back()\<close>. A fresh buffer is default-constructed (inline array
  \<open>uninit\<close>) and then reserved.
\<close>

definition get :: "nat \<Rightarrow> (nat \<Rightarrow> char) \<Rightarrow> pool_state \<Rightarrow> DynamicStringBuffer \<times> pool_state" where
  "get t uninit s =
     (let s1 = s\<lparr> m_stats := (m_stats s)\<lparr> totalRequests := totalRequests (m_stats s) + 1 \<rparr> \<rparr>
      in case t_cachedBuffer s1 t of
           Some buffer \<Rightarrow>
             (clear buffer,
              s1\<lparr> m_stats := (m_stats s1)\<lparr> threadLocalHits := threadLocalHits (m_stats s1) + 1 \<rparr>,
                  t_cachedBuffer := (t_cachedBuffer s1)(t := None) \<rparr>)
         | None \<Rightarrow>
             if m_pool s1 \<noteq> [] then
               (clear (last (m_pool s1)),
                s1\<lparr> m_stats := (m_stats s1)\<lparr> dynamicStringBufferPoolHits :=
                                     dynamicStringBufferPoolHits (m_stats s1) + 1 \<rparr>,
                    m_pool := butlast (m_pool s1) \<rparr>)
             else
               (reserve (m_initialCapacity s1) (DynamicStringBuffer_new uninit),
                s1\<lparr> m_stats := (m_stats s1)\<lparr> newAllocations :=
                                     newAllocations (m_stats s1) + 1 \<rparr> \<rparr>))"

definition returnToPool :: "nat \<Rightarrow> DynamicStringBuffer option \<Rightarrow> pool_state \<Rightarrow> pool_state" where
  "returnToPool t buffer s =
     (case buffer of
        None \<Rightarrow> s
      | Some b \<Rightarrow>
          if capacity b > m_maximumRetainedCapacity s then s
          else if t_cachedBuffer s t = None then
            s\<lparr> t_cachedBuffer := (t_cachedBuffer s)(t \<mapsto> b) \<rparr>
          else if length (m_pool s) < m_maxPoolSize s then
            s\<lparr> m_pool := m_pool s @ [b] \<rparr>
          else s)"

definition stats :: "pool_state \<Rightarrow> PoolStatistics" where
  "stats s = m_stats s"

definition pool_clear :: "nat \<Rightarrow> pool_state \<Rightarrow> nat \<times> pool_state" where
  "pool_clear t s =
     (let clearedCount = length (m_pool s);
          s1 = s\<lparr> m_pool := [] \<rparr>
      in if t_cachedBuffer s1 t \<noteq> None
         then (clearedCount + 1, s1\<lparr> t_cachedBuffer := (t_cachedBuffer s1)(t := None) \<rparr>)
         else (clearedCount, s1))"

definition pool_size :: "nat \<Rightarrow> pool_state \<Rightarrow> nat" where
  "pool_size t s =
     (let count = length (m_pool s)
      in if t_cachedBuffer s t \<noteq> None then count + 1 else count)"

definition resetStats :: "pool_state \<Rightarrow> pool_state" where
  "resetStats s = s\<lparr> m_stats := reset (m_stats s) \<rparr>"

text \<open>The destructor of \<^verbatim>\<open>ThreadLocalCleanup\<close>, run when thread \<open>t\<close> exits.\<close>

definition ThreadLocalCleanup_destroy :: "nat \<Rightarrow> pool_state \<Rightarrow> pool_state" where
  "ThreadLocalCleanup_destroy t s =
     (if t_cachedBuffer s t \<noteq> None
      then s\<lparr> t_cachedBuffer := (t_cachedBuffer s)(t := None) \<rparr>
      else s)"

text \<open>
  The retention bound of the pool: no buffer in the shared vector or in the slot of any
  thread has a capacity above \<^verbatim>\<open>m_maximumRetainedCapacity\<close>.
\<close>

definition retained_bounded :: "pool_state \<Rightarrow> bool" where
  "retained_bounded s \<longleftrightarrow>
     (\<forall>b \<in> set (m_pool s). capacity b \<le> m_maximumRetainedCapacity s) \<and>
     (\<forall>t b. t_cachedBuffer s t = Some b \<longrightarrow> capacity b \<le> m_maximumRetainedCapacity s)"

section \<open>StringBuilderLease and StringBuilderPool\<close>

text \<open>
  A lease holds the pointer \<^verbatim>\<open>m_buffer\<close> and the flag \<^verbatim>\<open>m_valid\<close>; it is Active
  when the flag is set and Disposed otherwise. \<^verbatim>\<open>throwInvalidOperation()\<close> throws a
  \<^verbatim>\<open>std::runtime_error\<close>, which is the left summand of a result. An access through a
  null pointer of a lease whose flag is set has no defined result in the source (no
  lease made by \<^verbatim>\<open>StringBuilderPool::lease()\<close> is in that state); the model returns
  \<open>null_dereference\<close> there. A \<^verbatim>\<open>StringBuilder\<close> is a reference to the buffer.
\<close>

record StringBuilderLease =
  m_buffer :: "DynamicStringBuffer option"
  m_valid :: bool

datatype StringBuilder = StringBuilder DynamicStringBuffer

datatype failure = runtime_error string | null_dereference

definition throwInvalidOperation :: failure where
  "throwInvalidOperation =
     runtime_error ''Tried to access StringBuilder after it was returned to pool''"

definition StringBuilderLease_new :: "DynamicStringBuffer option \<Rightarrow> StringBuilderLease" where
  "StringBuilderLease_new buffer = \<lparr> m_buffer = buffer, m_valid = True \<rparr>"

definition dispose :: "nat \<Rightarrow> StringBuilderLease \<Rightarrow> pool_state \<Rightarrow> StringBuilderLease \<times> pool_state" where
  "dispose t l s =
     (if m_valid l
      then (l\<lparr> m_buffer := None, m_valid := False \<rparr>, returnToPool t (m_buffer l) s)
      else (l, s))"

text \<open>The destructor disposes; the object is gone afterwards, the pool state remains.\<close>

definition StringBuilderLease_destroy :: "nat \<Rightarrow> StringBuilderLease \<Rightarrow> pool_state \<Rightarrow> pool_state" where
  "StringBuilderLease_destroy t l s = snd (dispose t l s)"

text \<open>Move construction: the new lease, and the source after \<^verbatim>\<open>std::exchange\<close>.\<close>

definition StringBuilderLease_move :: "StringBuilderLease \<Rightarrow> StringBuilderLease \<times> StringBuilderLease" where
  "StringBuilderLease_move other =
     (\<lparr> m_buffer = m_buffer other, m_valid = m_valid other \<rparr>,
      other\<lparr> m_buffer := None, m_valid := False \<rparr>)"

text \<open>
  Move assignment between two distinct leases: the destination, the source and the pool
  after the call. For \<^verbatim>\<open>this == &other\<close> the operator does nothing.
\<close>

definition lease_move_assign ::
  "nat \<Rightarrow> StringBuilderLease \<Rightarrow> StringBuilderLease \<Rightarrow> pool_state
     \<Rightarrow> StringBuilderLease \<times> StringBuilderLease \<times> pool_state" where
  "lease_move_assign t this other s =
     (let (this1, s1) = dispose t this s
      in (this1\<lparr> m_buffer := m_buffer other, m_valid := m_valid other \<rparr>,
          other\<lparr> m_buffer := None, m_valid := False \<rparr>,
          s1))"

definition lease_move_assign_self ::
  "nat \<Rightarrow> StringBuilderLease \<Rightarrow> pool_state \<Rightarrow> StringBuilderLease \<times> pool_state" where
  "lease_move_assign_self t this s = (this, s)"

definition create :: "StringBuilderLease \<Rightarrow> failure + StringBuilder" where
  "create l =
     (if \<not> m_valid l then Inl throwInvalidOperation
      else case m_buffer l of
             None \<Rightarrow> Inl null_dereference
           | Some b \<Rightarrow> Inr (StringBuilder b))"

definition buffer :: "StringBuilderLease \<Rightarrow> failure + DynamicStringBuffer" where
  "buffer l =
     (if \<not> m_valid l then Inl throwInvalidOperation
      else case m_buffer l of
             None \<Rightarrow> Inl null_dereference
           | Some b \<Rightarrow> Inr b)"

definition lease_toString :: "StringBuilderLease \<Rightarrow> failure + string" where
  "lease_toString l =
     (if \<not> m_valid l then Inl throwInvalidOperation
      else case m_buffer l of
             None \<Rightarrow> Inl null_dereference
           | Some b \<Rightarrow> Inr (toString b))"

text \<open>
  Every lease the program can build has a buffer while its flag is set: the one
  constructor is private and is called with the result of \<^verbatim>\<open>get()\<close>, which is
  never null, and the move operations transfer pointer and flag together.
\<close>

definition lease_inv :: "StringBuilderLease \<Rightarrow> bool" where
  "lease_inv l \<longleftrightarrow> (m_valid l \<longrightarrow> m_buffer l \<noteq> None)"

text \<open>The static interface of \<^verbatim>\<open>StringBuilderPool\<close>, on the singleton pool.\<close>

definition lease :: "nat \<Rightarrow> (nat \<Rightarrow> char) \<Rightarrow> pool_state \<Rightarrow> StringBuilderLease \<times> pool_state" where
  "lease t uninit s =
     (let (b, s1) = get t uninit s in (StringBuilderLease_new (Some b), s1))"

definition StringBuilderPool_resetStats :: "pool_state \<Rightarrow> pool_state" where
  "StringBuilderPool_resetStats s = resetStats s"

definition StringBuilderPool_clear :: "nat \<Rightarrow> pool_state \<Rightarrow> nat \<times> pool_state" where
  "StringBuilderPool_clear t s = pool_clear t (resetStats s)"

definition StringBuilderPool_size :: "nat \<Rightarrow> pool_state \<Rightarrow> nat" where
  "StringBuilderPool_size t s = pool_size t s"

subsection \<open>Sequences of pool operations\<close>

text \<open>
  What the threads of a program can do to the pool, one call after the other. A buffer
  handed to \<^verbatim>\<open>returnToPool\<close> is any buffer value (or a null pointer): whatever its
  holder did to it before.
\<close>

datatype pool_op =
    Get nat "nat \<Rightarrow> char"
  | ReturnToPool nat "DynamicStringBuffer option"
  | PoolClear nat
  | ResetStats
  | FacadeClear nat
  | ThreadExit nat

fun pool_step :: "pool_op \<Rightarrow> pool_state \<Rightarrow> pool_state" where
  "pool_step (Get t uninit) s = snd (get t uninit s)"
| "pool_step (ReturnToPool t b) s = returnToPool t b s"
| "pool_step (PoolClear t) s = snd (pool_clear t s)"
| "pool_step ResetStats s = resetStats s"
| "pool_step (FacadeClear t) s = snd (StringBuilderPool_clear t s)"
| "pool_step (ThreadExit t) s = ThreadLocalCleanup_destroy t s"

fun pool_run :: "pool_op list \<Rightarrow> pool_state \<Rightarrow> pool_state" where
  "pool_run [] s = s"
| "pool_run (x # xs) s = pool_run xs (pool_step x s)"

text \<open>
  One acquire-then-release cycle of thread \<open>t\<close>: a lease is taken and its scope ends,
  \<^verbatim>\<open>{ auto lease{ StringBuilderPool::lease() }; }\<close>. Then \<open>n\<close> cycles in a row,
  cycle \<open>k\<close> with the indeterminate memory \<open>uninit k\<close> for a fresh buffer.
\<close>

definition cycle :: "nat \<Rightarrow> (nat \<Rightarrow> char) \<Rightarrow> pool_state \<Rightarrow> pool_state" where
  "cycle t uninit s =
     (let (l, s1) = lease t uninit s in StringBuilderLease_destroy t l s1)"

fun cycles :: "nat \<Rightarrow> nat \<Rightarrow> (nat \<Rightarrow> nat \<Rightarrow> char) \<Rightarrow> pool_state \<Rightarrow> pool_state" where
  "cycles t 0 uninit s = s"
| "cycles t (Suc n) uninit s = cycle t (uninit n) (cycles t n uninit s)"

text \<open>
  A cycle in which the holder uses the buffer: \<open>use\<close> is what is done to the leased
  buffer, through \<^verbatim>\<open>lease.buffer()\<close> or \<^verbatim>\<open>lease.create()\<close>, before the scope of
  the lease ends. \<open>released\<close> is the buffer such a cycle hands to
  \<^verbatim>\<open>returnToPool\<close>. In \<open>n\<close> cycles in a row, cycle \<open>k\<close> does \<open>use k\<close>.
\<close>

definition cycle_use ::
  "nat \<Rightarrow> (nat \<Rightarrow> char) \<Rightarrow> (DynamicStringBuffer \<Rightarrow> DynamicStringBuffer) \<Rightarrow> pool_state \<Rightarrow> pool_state" where
  "cycle_use t uninit use s =
     (let (l, s1) = lease t uninit s;
          l1 = l\<lparr> m_buffer := map_option use (m_buffer l) \<rparr>
      in StringBuilderLease_destroy t l1 s1)"

definition released ::
  "nat \<Rightarrow> (nat \<Rightarrow> char) \<Rightarrow> (DynamicStringBuffer \<Rightarrow> DynamicStringBuffer) \<Rightarrow> pool_state
     \<Rightarrow> DynamicStringBuffer" where
  "released t uninit use s = use (fst (get t uninit s))"

fun cycles_use ::
  "nat \<Rightarrow> nat \<Rightarrow> (nat \<Rightarrow> nat \<Rightarrow> char) \<Rightarrow> (nat \<Rightarrow> DynamicStringBuffer \<Rightarrow> DynamicStringBuffer)
     \<Rightarrow> pool_state \<Rightarrow> pool_state" where
  "cycles_use t 0 uninit use s = s"
| "cycles_use t (Suc n) uninit use s =
     cycle_use t (uninit n) (use n) (cycles_use t n uninit use s)"

text \<open>
  Every one of the \<open>n\<close> cycles releases its buffer with a capacity within
  \<^verbatim>\<open>m_maximumRetainedCapacity\<close>.
\<close>

fun released_within ::
  "nat \<Rightarrow> nat \<Rightarrow> (nat \<Rightarrow> nat \<Rightarrow> char) \<Rightarrow> (nat \<Rightarrow> DynamicStringBuffer \<Rightarrow> DynamicStringBuffer)
     \<Rightarrow> pool_state \<Rightarrow> bool" where
  "released_within t 0 uninit use s = True"
| "released_within t (Suc n) uninit use s =
     (released_within t n uninit use s \<and>
      capacity (released t (uninit n) (use n) (cycles_use t n uninit use s))
        \<le> m_maximumRetainedCapacity (cycles_use t n uninit use s))"

text \<open>Sample buffers and sample memory, for evaluating the model on concrete inputs.\<close>

definition big_buffer :: DynamicStringBuffer where
  "big_buffer = reserve 3000 (DynamicStringBuffer_new sample_uninit)"

definition small_buffer :: DynamicStringBuffer where
  "small_buffer = DynamicStringBuffer_new sample_uninit"

definition sample_memory :: "nat \<Rightarrow> nat \<Rightarrow> char" where
  "sample_memory k = sample_uninit"

definition heavy_use :: "nat \<Rightarrow> DynamicStringBuffer \<Rightarrow> DynamicStringBuffer" where
  "heavy_use k = append_string (replicate 3000 CHR ''a'')"

definition light_use :: "nat \<Rightarrow> DynamicStringBuffer \<Rightarrow> DynamicStringBuffer" where
  "light_use k = append_string ''test''"

section \<open>Properties of the buffer\<close>

subsection \<open>Auxiliary facts\<close>


lemma length_memcpy:
  "off + n \<le> length dst \<Longrightarrow> n \<le> length src \<Longrightarrow> length (memcpy dst off src n) = length dst"
  by (simp add: memcpy_def)

lemma take_memcpy:
  "off + n \<le> length dst \<Longrightarrow> n \<le> length src \<Longrightarrow>
   take (off + n) (memcpy dst off src n) = take off dst @ take n src"
  by (simp add: memcpy_def)

lemma ensureCapacity_size: "m_size (ensureCapacity n b) = m_size b"
  by (simp add: ensureCapacity_def Let_def)

lemma ensureCapacity_inv: "buffer_inv b \<Longrightarrow> buffer_inv (ensureCapacity n b)"
  by (auto simp: ensureCapacity_def Let_def buffer_inv_def currentBuffer_def heapArray_def
      make_unique_def length_memcpy memcpy_def)

lemma ensureCapacity_enough: "buffer_inv b \<Longrightarrow> n \<le> m_capacity (ensureCapacity n b)"
  by (auto simp: ensureCapacity_def Let_def buffer_inv_def)

lemma ensureCapacity_toString: "buffer_inv b \<Longrightarrow> toString (ensureCapacity n b) = toString b"
  by (auto simp: ensureCapacity_def Let_def buffer_inv_def currentBuffer_def heapArray_def
      make_unique_def memcpy_def toString_def split: option.splits)

lemma storeCurrent_current: "currentBuffer (storeCurrent a b) = a"
  by (simp add: storeCurrent_def currentBuffer_def heapArray_def)

lemma view_read_length: "length (view_read v needed b) = view_size v"
  by (cases v) (auto simp: view_read_def view_size_def)

lemma append_view_toString:
  assumes "buffer_inv b"
  shows "toString (append_view v b) = toString b @ view_read v (m_size b + view_size v) b"
proof (cases "view_size v = 0")
  case True
  then have "view_read v (m_size b + view_size v) b = []"
    using view_read_length [of v "m_size b + view_size v" b] by simp
  with True show ?thesis by (simp add: append_view_def)
next
  case False
  define src where "src = view_read v (m_size b + view_size v) b"
  define b1 where "b1 = ensureCapacity (m_size b + view_size v) b"
  have ls: "length src = view_size v"
    by (simp add: src_def view_read_length)
  have inv1: "buffer_inv b1" and sz: "m_size b1 = m_size b"
    and ts: "toString b1 = toString b" and en: "m_size b + view_size v \<le> m_capacity b1"
    using assms by (simp_all add: b1_def ensureCapacity_inv ensureCapacity_size
        ensureCapacity_toString ensureCapacity_enough)
  have len: "length (currentBuffer b1) = m_capacity b1"
    using inv1 by (simp add: buffer_inv_def)
  have "toString (append_view v b) =
        take (m_size b + view_size v) (memcpy (currentBuffer b1) (m_size b) src (view_size v))"
    using False by (simp add: append_view_def Let_def b1_def[symmetric] src_def[symmetric]
        sz toString_def storeCurrent_def currentBuffer_def heapArray_def)
  also have "\<dots> = take (m_size b) (currentBuffer b1) @ take (view_size v) src"
    using en len ls by (simp add: take_memcpy)
  finally show ?thesis using ts sz ls by (simp add: toString_def src_def)
qed

lemma append_view_inv:
  assumes "buffer_inv b"
  shows "buffer_inv (append_view v b)"
proof (cases "view_size v = 0")
  case True
  then show ?thesis using assms by (simp add: append_view_def)
next
  case False
  define src where "src = view_read v (m_size b + view_size v) b"
  define b1 where "b1 = ensureCapacity (m_size b + view_size v) b"
  have ls: "length src = view_size v"
    by (simp add: src_def view_read_length)
  have inv1: "buffer_inv b1" and sz: "m_size b1 = m_size b"
    and en: "m_size b + view_size v \<le> m_capacity b1"
    using assms by (simp_all add: b1_def ensureCapacity_inv ensureCapacity_size
        ensureCapacity_enough)
  have len: "length (memcpy (currentBuffer b1) (m_size b) src (view_size v)) = m_capacity b1"
    using en inv1 ls by (simp add: length_memcpy buffer_inv_def)
  show ?thesis
    using False inv1 en len
    by (auto simp: append_view_def Let_def b1_def[symmetric] src_def[symmetric] sz
        buffer_inv_def storeCurrent_def currentBuffer_def heapArray_def)
qed

lemma append_view_size: "m_size (append_view v b) = m_size b + view_size v"
  by (simp add: append_view_def Let_def storeCurrent_def)

lemma reallocates_heap:
  "m_onHeap b \<Longrightarrow> reallocates needed b \<longleftrightarrow> m_capacity b < needed"
  by (auto simp: reallocates_def)

lemma view_read_safe:
  assumes "buffer_inv b" and "safe_view v b"
  shows "view_read v (m_size b + view_size v) b = view_bytes v b"
proof (cases v)
  case (External s)
  then show ?thesis by (simp add: view_read_def view_bytes_def)
next
  case (Internal off n undef)
  with assms(2) have live: "off + n \<le> m_size b"
    and keep: "\<not> (m_onHeap b \<and> m_capacity b < m_size b + n)"
    by (simp_all add: safe_view_def)
  have cur: "off + n \<le> length (currentBuffer b)"
    using live assms(1) by (simp add: buffer_inv_def)
  show ?thesis
  proof (cases "m_onHeap b")
    case True
    with keep have "\<not> reallocates (m_size b + n) b"
      by (simp add: reallocates_heap)
    then show ?thesis
      using Internal live cur by (simp add: view_read_def view_bytes_def view_size_def)
  next
    case False
    then have "currentBuffer b = m_stackBuffer b"
      by (simp add: currentBuffer_def)
    then show ?thesis
      using Internal live cur False
      by (simp add: view_read_def view_bytes_def view_size_def)
  qed
qed

lemma view_bytes_length:
  "buffer_inv b \<Longrightarrow> safe_view v b \<Longrightarrow> length (view_bytes v b) = view_size v"
  using view_read_safe [of b v] view_read_length [of v "m_size b + view_size v" b] by simp

lemma view_bytes_whole: "view_bytes (Internal 0 (m_size b) undef) b = toString b"
  by (simp add: view_bytes_def toString_def)

lemma push_back_toString:
  assumes "buffer_inv b"
  shows "toString (push_back c b) = toString b @ [c]"
proof -
  define b1 where "b1 = ensureCapacity (m_size b + 1) b"
  have inv1: "buffer_inv b1" and sz: "m_size b1 = m_size b"
    and ts: "toString b1 = toString b" and en: "m_size b + 1 \<le> m_capacity b1"
    using assms by (simp_all add: b1_def ensureCapacity_inv ensureCapacity_size
        ensureCapacity_toString ensureCapacity_enough)
  have len: "length (currentBuffer b1) = m_capacity b1"
    using inv1 by (simp add: buffer_inv_def)
  have "toString (push_back c b) = take (Suc (m_size b)) ((currentBuffer b1)[m_size b := c])"
    unfolding push_back_def Let_def b1_def[symmetric]
    by (simp add: sz toString_def storeCurrent_def currentBuffer_def heapArray_def)
  also have "\<dots> = take (m_size b) (currentBuffer b1) @ [c]"
    using en len by (simp add: take_Suc_conv_app_nth)
  finally show ?thesis using ts sz by (simp add: toString_def)
qed

lemma push_back_inv:
  assumes "buffer_inv b"
  shows "buffer_inv (push_back c b)"
proof -
  define b1 where "b1 = ensureCapacity (m_size b + 1) b"
  have inv1: "buffer_inv b1" and sz: "m_size b1 = m_size b"
    and en: "m_size b + 1 \<le> m_capacity b1"
    using assms by (simp_all add: b1_def ensureCapacity_inv ensureCapacity_size
        ensureCapacity_enough)
  show ?thesis
    using inv1 en
    unfolding push_back_def Let_def b1_def[symmetric]
    by (auto simp: sz buffer_inv_def storeCurrent_def currentBuffer_def heapArray_def)
qed

lemma push_back_size: "m_size (push_back c b) = m_size b + 1"
  by (simp add: push_back_def Let_def storeCurrent_def ensureCapacity_size)

lemma take_strlen: "take (strlen s) s = takeWhile (\<lambda>c. c \<noteq> CHR 0x00) s"
  unfolding strlen_def by (rule takeWhile_eq_take [symmetric])

lemma cstr_view_bytes:
  "view_bytes (Internal off (strlen (drop off (currentBuffer b))) undef) b =
   takeWhile (\<lambda>c. c \<noteq> CHR 0x00) (drop off (currentBuffer b))"
  by (simp add: view_bytes_def take_strlen)

lemma apply_call_inv: "buffer_inv b \<Longrightarrow> buffer_inv (apply_call c b)"
  by (cases c)
     (auto simp: append_string_def append_cstr_def append_view_inv push_back_inv
        split: c_string.splits)

lemma apply_call_toString:
  assumes "buffer_inv b" and "safe_call c b"
  shows "toString (apply_call c b) = toString b @ call_bytes c b"
proof (cases c)
  case (AppendView v)
  with assms show ?thesis by (simp add: append_view_toString view_read_safe)
next
  case (AppendString s)
  with assms(1) show ?thesis
    by (simp add: append_string_def append_view_toString view_read_def)
next
  case (AppendCStr p)
  show ?thesis
  proof (cases p)
    case Null
    with AppendCStr show ?thesis by (simp add: append_cstr_def)
  next
    case (Outside s)
    with AppendCStr assms(1) show ?thesis
      by (simp add: append_cstr_def append_view_toString view_read_def take_strlen)
  next
    case (Inside off undef)
    with AppendCStr assms show ?thesis
      by (simp add: append_cstr_def append_view_toString view_read_safe cstr_view_bytes)
  qed
next
  case (PushBack x)
  with assms(1) show ?thesis by (simp add: push_back_toString)
qed

lemma apply_call_size:
  assumes "buffer_inv b" and "safe_call c b"
  shows "m_size (apply_call c b) = m_size b + length (call_bytes c b)"
proof -
  have "m_size (apply_call c b) = length (toString (apply_call c b))"
    using apply_call_inv [OF assms(1), of c]
    by (simp add: toString_def buffer_inv_def)
  also have "\<dots> = length (toString b) + length (call_bytes c b)"
    by (simp add: apply_call_toString [OF assms])
  also have "length (toString b) = m_size b"
    using assms(1) by (simp add: toString_def buffer_inv_def)
  finally show ?thesis .
qed

lemma external_call_safe: "external_call c \<Longrightarrow> safe_call c b"
  by (induction c rule: external_call.induct) (simp_all add: safe_view_def)

lemma external_call_bytes: "external_call c \<Longrightarrow> call_bytes c b = call_bytes c b'"
  by (induction c rule: external_call.induct) (simp_all add: view_bytes_def)

lemma external_calls_safe: "list_all external_call cs \<Longrightarrow> safe_calls cs b"
  by (induction cs arbitrary: b) (simp_all add: external_call_safe)

lemma external_calls_bytes:
  "list_all external_call cs \<Longrightarrow> bytes_of_calls cs b = concat (map (\<lambda>c. call_bytes c b') cs)"
proof (induction cs arbitrary: b)
  case Nil
  show ?case by simp
next
  case (Cons c cs)
  then have "call_bytes c b = call_bytes c b'" and "list_all external_call cs"
    by (simp_all add: external_call_bytes [of c b b'])
  with Cons.IH show ?case by simp
qed

lemma apply_calls_inv: "buffer_inv b \<Longrightarrow> buffer_inv (apply_calls cs b)"
  by (induction cs arbitrary: b) (simp_all add: apply_call_inv)

lemma apply_calls_toString:
  "buffer_inv b \<Longrightarrow> safe_calls cs b \<Longrightarrow>
   toString (apply_calls cs b) = toString b @ bytes_of_calls cs b"
  by (induction cs arbitrary: b) (simp_all add: apply_call_inv apply_call_toString)

lemma apply_calls_size:
  "buffer_inv b \<Longrightarrow> safe_calls cs b \<Longrightarrow>
   m_size (apply_calls cs b) = m_size b + length (bytes_of_calls cs b)"
  by (induction cs arbitrary: b) (simp_all add: apply_call_inv apply_call_size)

lemma buffer_inv_new: "buffer_inv (DynamicStringBuffer_new uninit)"
  by (simp add: buffer_inv_def DynamicStringBuffer_new_def currentBuffer_def)

lemma ensureCapacity_onHeap: "m_onHeap b \<Longrightarrow> m_onHeap (ensureCapacity n b)"
  by (simp add: ensureCapacity_def Let_def)

lemma ensureCapacity_mono: "m_capacity b \<le> m_capacity (ensureCapacity n b)"
  by (auto simp: ensureCapacity_def Let_def)

lemma storeCurrent_fields:
  "m_onHeap (storeCurrent a b) = m_onHeap b"
  "m_capacity (storeCurrent a b) = m_capacity b"
  "m_size (storeCurrent a b) = m_size b"
  by (simp_all add: storeCurrent_def)

lemma append_view_onHeap: "m_onHeap b \<Longrightarrow> m_onHeap (append_view s b)"
  by (simp add: append_view_def Let_def storeCurrent_fields ensureCapacity_onHeap)

lemma append_view_mono: "m_capacity b \<le> m_capacity (append_view s b)"
  by (simp add: append_view_def Let_def storeCurrent_fields ensureCapacity_mono)

lemma push_back_onHeap: "m_onHeap b \<Longrightarrow> m_onHeap (push_back c b)"
  unfolding push_back_def Let_def by (simp add: storeCurrent_fields ensureCapacity_onHeap)

lemma push_back_mono: "m_capacity b \<le> m_capacity (push_back c b)"
  unfolding push_back_def Let_def by (simp add: storeCurrent_fields ensureCapacity_mono)

lemma apply_call_onHeap: "m_onHeap b \<Longrightarrow> m_onHeap (apply_call c b)"
  by (cases c)
     (simp_all add: append_string_def append_cstr_def append_view_onHeap push_back_onHeap
        split: c_string.splits)

lemma apply_call_mono: "m_capacity b \<le> m_capacity (apply_call c b)"
  by (cases c)
     (simp_all add: append_string_def append_cstr_def append_view_mono push_back_mono
        split: c_string.splits)

lemma mutate_onHeap: "m_onHeap b \<Longrightarrow> m_onHeap (mutate m b)"
  by (cases m)
     (simp_all add: apply_call_onHeap clear_def reserve_def resize_def ensureCapacity_onHeap)

lemma mutate_mono: "m_capacity b \<le> m_capacity (mutate m b)"
  by (cases m)
     (simp_all add: apply_call_mono clear_def reserve_def resize_def ensureCapacity_mono)

lemma mutate_all_onHeap: "m_onHeap b \<Longrightarrow> m_onHeap (mutate_all ms b)"
  by (induction ms arbitrary: b) (simp_all add: mutate_onHeap)

lemma mutate_all_mono: "m_capacity b \<le> m_capacity (mutate_all ms b)"
proof (induction ms arbitrary: b)
  case Nil
  show ?case by simp
next
  case (Cons m ms)
  have "m_capacity b \<le> m_capacity (mutate m b)" by (rule mutate_mono)
  also have "\<dots> \<le> m_capacity (mutate_all ms (mutate m b))" by (rule Cons.IH)
  finally show ?case by simp
qed

lemma clear_inv: "buffer_inv b \<Longrightarrow> buffer_inv (clear b)"
  by (auto simp: buffer_inv_def clear_def currentBuffer_def heapArray_def)

lemma reserve_inv: "buffer_inv b \<Longrightarrow> buffer_inv (reserve n b)"
  by (simp add: reserve_def ensureCapacity_inv)

lemma resize_inv:
  assumes "buffer_inv b"
  shows "buffer_inv (resize n b)"
proof -
  have "buffer_inv (ensureCapacity n b)" "n \<le> m_capacity (ensureCapacity n b)"
    using assms by (simp_all add: ensureCapacity_inv ensureCapacity_enough)
  then show ?thesis
    by (auto simp: resize_def buffer_inv_def currentBuffer_def heapArray_def)
qed

lemma mutate_inv: "buffer_inv b \<Longrightarrow> buffer_inv (mutate m b)"
  by (cases m) (simp_all add: apply_call_inv clear_inv reserve_inv resize_inv)

lemma mutate_all_inv: "buffer_inv b \<Longrightarrow> buffer_inv (mutate_all ms b)"
  by (induction ms arbitrary: b) (simp_all add: mutate_inv)

lemma moved_from_inv: "buffer_inv b \<Longrightarrow> buffer_inv (moved_from b)"
  by (simp add: buffer_inv_def moved_from_def currentBuffer_def)

lemma copy_inv: "buffer_inv b \<Longrightarrow> buffer_inv (DynamicStringBuffer_copy u b)"
  by (auto simp: buffer_inv_def DynamicStringBuffer_copy_def Let_def currentBuffer_def
      heapArray_def memcpy_def make_unique_def)

lemma move_inv:
  "buffer_inv b \<Longrightarrow>
   buffer_inv (fst (DynamicStringBuffer_move u b)) \<and> buffer_inv (snd (DynamicStringBuffer_move u b))"
  by (auto simp: DynamicStringBuffer_move_def Let_def moved_from_inv)
     (auto simp: buffer_inv_def currentBuffer_def heapArray_def memcpy_def)

lemma copy_assign_inv:
  "buffer_inv a \<Longrightarrow> buffer_inv b \<Longrightarrow> buffer_inv (copy_assign a b)"
  by (auto simp: buffer_inv_def copy_assign_def Let_def currentBuffer_def
      heapArray_def memcpy_def make_unique_def)

lemma move_assign_inv:
  "buffer_inv a \<Longrightarrow> buffer_inv b \<Longrightarrow>
   buffer_inv (fst (move_assign a b)) \<and> buffer_inv (snd (move_assign a b))"
  by (auto simp: move_assign_def Let_def moved_from_inv)
     (auto simp: buffer_inv_def currentBuffer_def heapArray_def memcpy_def)

lemma copy_toString: "buffer_inv b \<Longrightarrow> toString (DynamicStringBuffer_copy u b) = toString b"
  by (auto simp: buffer_inv_def DynamicStringBuffer_copy_def Let_def currentBuffer_def
      heapArray_def memcpy_def make_unique_def toString_def)

lemma copy_assign_toString:
  "buffer_inv a \<Longrightarrow> buffer_inv b \<Longrightarrow> toString (copy_assign a b) = toString b"
  by (auto simp: buffer_inv_def copy_assign_def Let_def currentBuffer_def
      heapArray_def memcpy_def make_unique_def toString_def)

lemma append_view_tier:
  assumes "view_size v \<noteq> 0"
  shows "m_capacity (append_view v b) = m_capacity (ensureCapacity (m_size b + view_size v) b)"
    and "m_onHeap (append_view v b) = m_onHeap (ensureCapacity (m_size b + view_size v) b)"
  using assms by (simp_all add: append_view_def Let_def storeCurrent_fields)



lemma promoted_sample:
  "buffer_inv (append_string (replicate 300 CHR ''a'') (DynamicStringBuffer_new sample_uninit))"
  "m_onHeap (append_string (replicate 300 CHR ''a'') (DynamicStringBuffer_new sample_uninit))"
  "m_capacity (append_string (replicate 300 CHR ''a'') (DynamicStringBuffer_new sample_uninit)) = 384"
  "m_size (append_string (replicate 300 CHR ''a'') (DynamicStringBuffer_new sample_uninit)) = 300"
  "toString (append_string (replicate 300 CHR ''a'') (DynamicStringBuffer_new sample_uninit))
     = replicate 300 CHR ''a''"
proof -
  define b0 where "b0 = DynamicStringBuffer_new sample_uninit"
  have i: "buffer_inv b0" by (simp add: b0_def buffer_inv_new)
  have c0: "m_capacity b0 = 256" "\<not> m_onHeap b0" "m_size b0 = 0"
    by (simp_all add: b0_def DynamicStringBuffer_new_def STACK_BUFFER_SIZE_def)
  have vs: "view_size (External (replicate 300 CHR ''a'')) = 300"
    by (simp add: view_size_def)
  have t0: "toString b0 = []"
    by (simp add: toString_def c0)
  show "buffer_inv (append_string (replicate 300 CHR ''a'') (DynamicStringBuffer_new sample_uninit))"
    using i by (simp add: b0_def append_string_def append_view_inv)
  show "m_onHeap (append_string (replicate 300 CHR ''a'') (DynamicStringBuffer_new sample_uninit))"
    unfolding b0_def [symmetric] append_string_def
    by (simp add: append_view_tier vs c0 ensureCapacity_def STACK_BUFFER_SIZE_def grown_def)
  show "m_capacity (append_string (replicate 300 CHR ''a'') (DynamicStringBuffer_new sample_uninit)) = 384"
    unfolding b0_def [symmetric] append_string_def
    by (simp add: append_view_tier vs c0 ensureCapacity_def STACK_BUFFER_SIZE_def grown_def)
  show "m_size (append_string (replicate 300 CHR ''a'') (DynamicStringBuffer_new sample_uninit)) = 300"
    unfolding b0_def [symmetric] append_string_def
    by (simp add: append_view_size vs c0)
  show "toString (append_string (replicate 300 CHR ''a'') (DynamicStringBuffer_new sample_uninit))
     = replicate 300 CHR ''a''"
    unfolding b0_def [symmetric] append_string_def
    using i by (simp add: append_view_toString view_read_def t0)
qed

subsection \<open>The claims about the buffer\<close>

text \<open>
  Claim C1, as the code has it. On a well-formed buffer that starts empty, for every
  sequence of append calls (\<^verbatim>\<open>string_view\<close>, \<^verbatim>\<open>std::string\<close>, C string or
  \<^verbatim>\<open>push_back\<close>) each of which is safe on the buffer it is made on,
  \<^verbatim>\<open>toString()\<close> is the concatenation of the byte sequences handed over and
  \<^verbatim>\<open>size()\<close> is their total length; the sequence is arbitrary, so this holds after
  each of its calls. A call is safe when its bytes lie outside the buffer, or within the
  live bytes of the buffer while the call does not have to reallocate a heap array. In
  particular every sequence of calls whose bytes lie outside the buffer is safe.
\<close>

theorem append_round_trip:
  assumes "buffer_inv b" and "isEmpty b"
  shows "(safe_calls cs b \<longrightarrow>
            toString (apply_calls cs b) = bytes_of_calls cs b \<and>
            size_buffer (apply_calls cs b) = length (bytes_of_calls cs b)) \<and>
         (list_all external_call cs \<longrightarrow>
            safe_calls cs b \<and>
            toString (apply_calls cs b) = concat (map (\<lambda>c. call_bytes c b) cs) \<and>
            size_buffer (apply_calls cs b) = length (concat (map (\<lambda>c. call_bytes c b) cs)))"
proof -
  have z: "m_size b = 0" using assms(2) by (simp add: isEmpty_def)
  then have e: "toString b = []" by (simp add: toString_def)
  have A: "toString (apply_calls cs b) = bytes_of_calls cs b \<and>
           size_buffer (apply_calls cs b) = length (bytes_of_calls cs b)"
    if "safe_calls cs b"
    using that assms(1) z e
    by (simp add: apply_calls_toString apply_calls_size size_buffer_def)
  have B: "safe_calls cs b \<and>
           bytes_of_calls cs b = concat (map (\<lambda>c. call_bytes c b) cs)"
    if "list_all external_call cs"
    using that by (simp add: external_calls_safe external_calls_bytes [of cs b b])
  show ?thesis using A B by auto
qed

theorem append_round_trip_witness:
  "buffer_inv (DynamicStringBuffer_new sample_uninit) \<and>
   isEmpty (DynamicStringBuffer_new sample_uninit) \<and>
   list_all external_call
      [AppendView (External ''Hello''), AppendString '', '',
       AppendCStr (Outside (''World'' @ [CHR 0x00] @ ''junk'')), AppendCStr Null,
       AppendView (External []), PushBack CHR ''!''] \<and>
   toString (apply_calls
      [AppendView (External ''Hello''), AppendString '', '',
       AppendCStr (Outside (''World'' @ [CHR 0x00] @ ''junk'')), AppendCStr Null,
       AppendView (External []), PushBack CHR ''!'']
      (DynamicStringBuffer_new sample_uninit)) = ''Hello, World!'' \<and>
   size_buffer (apply_calls
      [AppendView (External ''Hello''), AppendString '', '',
       AppendCStr (Outside (''World'' @ [CHR 0x00] @ ''junk'')), AppendCStr Null,
       AppendView (External []), PushBack CHR ''!'']
      (DynamicStringBuffer_new sample_uninit)) = 13 \<and>
   toString (apply_calls [AppendString (replicate 300 CHR ''a''), PushBack CHR ''b'']
      (DynamicStringBuffer_new sample_uninit)) = replicate 300 CHR ''a'' @ ''b'' \<and>
   size_buffer (apply_calls [AppendString (replicate 300 CHR ''a''), PushBack CHR ''b'']
      (DynamicStringBuffer_new sample_uninit)) = 301 \<and>
   safe_calls [AppendString ''ab'', AppendView (Internal 0 2 sample_uninit)]
      (DynamicStringBuffer_new sample_uninit) \<and>
   toString (apply_calls [AppendString ''ab'', AppendView (Internal 0 2 sample_uninit)]
      (DynamicStringBuffer_new sample_uninit)) = ''abab''"
proof -
  define b0 where "b0 = DynamicStringBuffer_new sample_uninit"
  have i: "buffer_inv b0" by (simp add: b0_def buffer_inv_new)
  have e: "isEmpty b0"
    by (simp add: b0_def isEmpty_def DynamicStringBuffer_new_def)
  have c0: "m_capacity b0 = 256" "\<not> m_onHeap b0" "m_size b0 = 0" "toString b0 = []"
    by (simp_all add: b0_def DynamicStringBuffer_new_def STACK_BUFFER_SIZE_def toString_def)
  define b1 where "b1 = append_string ''ab'' b0"
  have c1: "m_size b1 = 2" "\<not> m_onHeap b1" "toString b1 = ''ab''"
    using i
    by (simp_all add: b1_def append_string_def append_view_size append_view_tier
        append_view_toString view_size_def view_read_def ensureCapacity_def c0)
  have s2: "safe_calls [AppendString ''ab'', AppendView (Internal 0 2 sample_uninit)] b0"
    by (simp add: safe_view_def b1_def [symmetric] c1)
  have "view_bytes (Internal 0 2 sample_uninit) b1 = toString b1"
    using view_bytes_whole [where b = b1 and undef = sample_uninit] by (simp add: c1)
  then have y2: "bytes_of_calls [AppendString ''ab'', AppendView (Internal 0 2 sample_uninit)] b0
                  = ''abab''"
    by (simp add: b1_def [symmetric] c1)
  have x0: "list_all external_call
      [AppendView (External ''Hello''), AppendString '', '',
       AppendCStr (Outside (''World'' @ [CHR 0x00] @ ''junk'')), AppendCStr Null,
       AppendView (External []), PushBack CHR ''!'']"
    by simp
  have x1: "list_all external_call [AppendString (replicate 300 CHR ''a''), PushBack CHR ''b'']"
    by simp
  show ?thesis
    unfolding b0_def [symmetric]
    using i e x0 x1 s2 y2
      append_round_trip [OF i e,
        of "[AppendView (External ''Hello''), AppendString '', '',
             AppendCStr (Outside (''World'' @ [CHR 0x00] @ ''junk'')), AppendCStr Null,
             AppendView (External []), PushBack CHR ''!'']"]
      append_round_trip [OF i e,
        of "[AppendString (replicate 300 CHR ''a''), PushBack CHR ''b'']"]
      append_round_trip [OF i e,
        of "[AppendString ''ab'', AppendView (Internal 0 2 sample_uninit)]"]
    by (simp add: view_bytes_def)
qed

text \<open>
  The claim for every sequence of append calls fails: after 300 bytes were appended the
  buffer is on the heap with capacity 384, and appending the view of its own 300 bytes
  makes \<^verbatim>\<open>ensureCapacity( 600 )\<close> replace the heap array before \<^verbatim>\<open>memcpy\<close> reads
  the view. The bytes handed over are 600 times \<open>a\<close>; the buffer holds 300 times \<open>a\<close>
  and then what the freed array reads as.
\<close>

theorem append_alias_counterexample:
  "buffer_inv (DynamicStringBuffer_new sample_uninit) \<and>
   isEmpty (DynamicStringBuffer_new sample_uninit) \<and>
   bytes_of_calls
      [AppendString (replicate 300 CHR ''a''), AppendView (Internal 0 300 sample_uninit)]
      (DynamicStringBuffer_new sample_uninit)
     = replicate 300 CHR ''a'' @ replicate 300 CHR ''a'' \<and>
   toString (apply_calls
      [AppendString (replicate 300 CHR ''a''), AppendView (Internal 0 300 sample_uninit)]
      (DynamicStringBuffer_new sample_uninit))
     = replicate 300 CHR ''a'' @ map sample_uninit [0..<300] \<and>
   toString (apply_calls
      [AppendString (replicate 300 CHR ''a''), AppendView (Internal 0 300 sample_uninit)]
      (DynamicStringBuffer_new sample_uninit))
     \<noteq> replicate 300 CHR ''a'' @ replicate 300 CHR ''a''"
proof -
  define b0 where "b0 = DynamicStringBuffer_new sample_uninit"
  define b1 where "b1 = append_string (replicate 300 CHR ''a'') b0"
  note p = promoted_sample [folded b0_def, folded b1_def]
  have i: "buffer_inv b0" by (simp add: b0_def buffer_inv_new)
  have e: "isEmpty b0"
    by (simp add: b0_def isEmpty_def DynamicStringBuffer_new_def)
  have "view_bytes (Internal 0 300 sample_uninit) b1 = toString b1"
    using view_bytes_whole [where b = b1 and undef = sample_uninit] by (simp add: p)
  then have y: "bytes_of_calls
      [AppendString (replicate 300 CHR ''a''), AppendView (Internal 0 300 sample_uninit)] b0
     = replicate 300 CHR ''a'' @ replicate 300 CHR ''a''"
    by (simp add: b1_def [symmetric] p)
  have r: "view_read (Internal 0 300 sample_uninit) 600 b1 = map sample_uninit [0..<300]"
    by (simp add: view_read_def reallocates_heap p)
  have t: "toString (apply_calls
      [AppendString (replicate 300 CHR ''a''), AppendView (Internal 0 300 sample_uninit)] b0)
     = replicate 300 CHR ''a'' @ map sample_uninit [0..<300]"
    using p(1) r by (simp add: b1_def [symmetric] append_view_toString p view_size_def)
  have d1: "(replicate 300 CHR ''a'' @ map sample_uninit [0..<300]) ! 300 = CHR ''#''"
    by (simp add: nth_append sample_uninit_def)
  have d2: "(replicate 300 CHR ''a'' @ replicate 300 CHR ''a'') ! 300 = CHR ''a''"
    by (simp add: nth_append)
  have n: "replicate 300 CHR ''a'' @ map sample_uninit [0..<300]
             \<noteq> replicate 300 CHR ''a'' @ replicate 300 CHR ''a''"
  proof
    assume "replicate 300 CHR ''a'' @ map sample_uninit [0..<300]
              = replicate 300 CHR ''a'' @ replicate 300 CHR ''a''"
    then have "(replicate 300 CHR ''a'' @ map sample_uninit [0..<300]) ! 300
                 = (replicate 300 CHR ''a'' @ replicate 300 CHR ''a'') ! 300"
      by (rule arg_cong)
    then have "CHR ''#'' = CHR ''a''"
      by (simp only: d1 d2)
    then show False by simp
  qed
  show ?thesis
    unfolding b0_def [symmetric] using i e y t n by simp
qed

text \<open>
  Claim C2, as the code has it. Once \<^verbatim>\<open>m_onHeap\<close> is set, no sequence of
  \<^verbatim>\<open>append\<close>, \<^verbatim>\<open>push_back\<close>, \<^verbatim>\<open>clear\<close>, \<^verbatim>\<open>reserve\<close> and
  \<^verbatim>\<open>resize\<close> calls unsets it or lowers the capacity; in particular the capacity
  after \<^verbatim>\<open>clear()\<close> is the heap-promoted one. Copy and move construction give the
  new object the heap tier and capacity of a heap source, and an assignment from a heap
  source leaves the destination on the heap. Copy assignment from an inline source
  demotes a heap destination to the inline array with capacity
  \<^verbatim>\<open>STACK_BUFFER_SIZE\<close>, move assignment gives the destination the tier and capacity
  of its source, and a moved-from buffer is reset to inline storage.
\<close>

theorem promotion_one_directional:
  assumes "m_onHeap b"
  shows "m_onHeap (mutate_all ms b) \<and> m_capacity b \<le> m_capacity (mutate_all ms b) \<and>
         m_onHeap (clear b) \<and> capacity (clear b) = capacity b \<and>
         m_onHeap (DynamicStringBuffer_copy uninit b) \<and>
         capacity (DynamicStringBuffer_copy uninit b) = capacity b \<and>
         m_onHeap (fst (DynamicStringBuffer_move uninit b)) \<and>
         capacity (fst (DynamicStringBuffer_move uninit b)) = capacity b \<and>
         m_onHeap (copy_assign this b) \<and> capacity b \<le> capacity (copy_assign this b) \<and>
         m_onHeap (fst (move_assign this b)) \<and>
         capacity (fst (move_assign this b)) = capacity b \<and>
         (if m_onHeap other
          then m_onHeap (copy_assign b other) \<and> capacity b \<le> capacity (copy_assign b other)
          else \<not> m_onHeap (copy_assign b other) \<and>
               capacity (copy_assign b other) = STACK_BUFFER_SIZE) \<and>
         m_onHeap (fst (move_assign b other)) = m_onHeap other \<and>
         capacity (fst (move_assign b other)) = capacity other \<and>
         \<not> m_onHeap (snd (move_assign this b)) \<and>
         capacity (snd (move_assign this b)) = STACK_BUFFER_SIZE \<and>
         \<not> m_onHeap (snd (DynamicStringBuffer_move uninit b)) \<and>
         capacity (snd (DynamicStringBuffer_move uninit b)) = STACK_BUFFER_SIZE"
  using assms mutate_all_onHeap [of b ms] mutate_all_mono [of b ms]
  by (simp add: clear_def capacity_def DynamicStringBuffer_copy_def
      DynamicStringBuffer_move_def copy_assign_def move_assign_def moved_from_def Let_def)

theorem promotion_one_directional_witness:
  "m_onHeap (reserve 300 (DynamicStringBuffer_new sample_uninit)) \<and>
   m_onHeap (mutate_all [Append (AppendView (External ''abc'')), Clear, Resize 5000, Clear]
               (reserve 300 (DynamicStringBuffer_new sample_uninit))) \<and>
   m_capacity (reserve 300 (DynamicStringBuffer_new sample_uninit))
     \<le> m_capacity (mutate_all [Append (AppendView (External ''abc'')), Clear, Resize 5000, Clear]
                      (reserve 300 (DynamicStringBuffer_new sample_uninit))) \<and>
   capacity (clear (reserve 300 (DynamicStringBuffer_new sample_uninit))) = 384"
proof -
  have h: "m_onHeap (reserve 300 (DynamicStringBuffer_new sample_uninit))"
    and c: "capacity (reserve 300 (DynamicStringBuffer_new sample_uninit)) = 384"
    by (simp_all add: reserve_def ensureCapacity_def DynamicStringBuffer_new_def
        STACK_BUFFER_SIZE_def grown_def capacity_def Let_def)
  show ?thesis
    using h c promotion_one_directional [OF h,
        where ms = "[Append (AppendView (External ''abc'')), Clear, Resize 5000, Clear]"]
    by simp
qed

text \<open>
  The claim as the specification words it fails: a buffer on the heap with capacity 384
  is back on the inline array, capacity 256, after a copy assignment or a move
  assignment from an inline buffer, and a heap buffer that was moved from is inline.
\<close>

theorem promotion_counterexample:
  "m_onHeap (reserve 300 (DynamicStringBuffer_new sample_uninit)) \<and>
   m_capacity (reserve 300 (DynamicStringBuffer_new sample_uninit)) = 384 \<and>
   \<not> m_onHeap (copy_assign (reserve 300 (DynamicStringBuffer_new sample_uninit))
                 (DynamicStringBuffer_new sample_uninit)) \<and>
   m_capacity (copy_assign (reserve 300 (DynamicStringBuffer_new sample_uninit))
                 (DynamicStringBuffer_new sample_uninit)) = STACK_BUFFER_SIZE \<and>
   \<not> m_onHeap (fst (move_assign (reserve 300 (DynamicStringBuffer_new sample_uninit))
                 (DynamicStringBuffer_new sample_uninit))) \<and>
   \<not> m_onHeap (snd (DynamicStringBuffer_move sample_uninit
                 (reserve 300 (DynamicStringBuffer_new sample_uninit))))"
  by (simp add: reserve_def ensureCapacity_def DynamicStringBuffer_new_def
      STACK_BUFFER_SIZE_def grown_def copy_assign_def move_assign_def
      DynamicStringBuffer_move_def moved_from_def Let_def)



text \<open>
  Claim C8. \<^verbatim>\<open>clear()\<close> sets the size to 0 and changes nothing else: the capacity,
  the \<^verbatim>\<open>m_onHeap\<close> flag, the heap allocation and the inline array are the ones the
  buffer had before.
\<close>

theorem clear_only_resets_size:
  "m_size (clear b) = 0 \<and>
   size_buffer (clear b) = 0 \<and>
   capacity (clear b) = capacity b \<and>
   m_capacity (clear b) = m_capacity b \<and>
   m_onHeap (clear b) = m_onHeap b \<and>
   m_heapBuffer (clear b) = m_heapBuffer b \<and>
   m_stackBuffer (clear b) = m_stackBuffer b \<and>
   currentBuffer (clear b) = currentBuffer b \<and>
   clear b = b\<lparr> m_size := 0 \<rparr>"
  by (simp add: clear_def size_buffer_def capacity_def currentBuffer_def heapArray_def)

section \<open>Properties of the pool\<close>

subsection \<open>Auxiliary facts\<close>

lemma pool_step_config:
  "m_initialCapacity (pool_step x s) = m_initialCapacity s"
  "m_maximumRetainedCapacity (pool_step x s) = m_maximumRetainedCapacity s"
  "m_maxPoolSize (pool_step x s) = m_maxPoolSize s"
  by (cases x;
      simp add: get_def returnToPool_def pool_clear_def resetStats_def
        StringBuilderPool_clear_def ThreadLocalCleanup_destroy_def Let_def
        split: option.splits)+

lemma pool_run_config:
  "m_initialCapacity (pool_run xs s) = m_initialCapacity s"
  "m_maximumRetainedCapacity (pool_run xs s) = m_maximumRetainedCapacity s"
  "m_maxPoolSize (pool_run xs s) = m_maxPoolSize s"
  by (induction xs arbitrary: s) (simp_all add: pool_step_config)

lemma get_bounded: "retained_bounded s \<Longrightarrow> retained_bounded (snd (get t u s))"
  by (auto simp: retained_bounded_def get_def Let_def split: option.splits
      dest: in_set_butlastD)

lemma returnToPool_bounded:
  "retained_bounded s \<Longrightarrow> retained_bounded (returnToPool t b s)"
  by (auto simp: retained_bounded_def returnToPool_def split: option.splits)

lemma pool_clear_bounded: "retained_bounded s \<Longrightarrow> retained_bounded (snd (pool_clear t s))"
  by (auto simp: retained_bounded_def pool_clear_def Let_def)

lemma resetStats_bounded: "retained_bounded s \<Longrightarrow> retained_bounded (resetStats s)"
  by (simp add: retained_bounded_def resetStats_def)

lemma cleanup_bounded:
  "retained_bounded s \<Longrightarrow> retained_bounded (ThreadLocalCleanup_destroy t s)"
  by (auto simp: retained_bounded_def ThreadLocalCleanup_destroy_def)

lemma pool_step_bounded: "retained_bounded s \<Longrightarrow> retained_bounded (pool_step x s)"
  by (cases x)
     (simp_all add: get_bounded returnToPool_bounded pool_clear_bounded resetStats_bounded
        cleanup_bounded StringBuilderPool_clear_def)

lemma pool_run_bounded: "retained_bounded s \<Longrightarrow> retained_bounded (pool_run xs s)"
  by (induction xs arbitrary: s) (simp_all add: pool_step_bounded)

lemma new_pool_bounded: "retained_bounded (DynamicStringBufferPool_new ic mrc mps)"
  by (simp add: retained_bounded_def DynamicStringBufferPool_new_def)

lemma sample_capacities:
  "capacity big_buffer = 3000" "capacity small_buffer = 256"
  by (simp_all add: big_buffer_def small_buffer_def capacity_def reserve_def
      ensureCapacity_def DynamicStringBuffer_new_def STACK_BUFFER_SIZE_def grown_def Let_def)

lemma pool_step_balanced:
  assumes "totalRequests (m_stats s) =
           threadLocalHits (m_stats s) + dynamicStringBufferPoolHits (m_stats s) +
           newAllocations (m_stats s)"
  shows "totalRequests (m_stats (pool_step x s)) =
         threadLocalHits (m_stats (pool_step x s)) +
         dynamicStringBufferPoolHits (m_stats (pool_step x s)) +
         newAllocations (m_stats (pool_step x s))"
  using assms
  by (cases x)
     (simp_all add: get_def returnToPool_def pool_clear_def resetStats_def reset_def
        StringBuilderPool_clear_def ThreadLocalCleanup_destroy_def Let_def
        split: option.splits)

lemma pool_run_balanced:
  assumes "totalRequests (m_stats s) =
           threadLocalHits (m_stats s) + dynamicStringBufferPoolHits (m_stats s) +
           newAllocations (m_stats s)"
  shows "totalRequests (m_stats (pool_run xs s)) =
         threadLocalHits (m_stats (pool_run xs s)) +
         dynamicStringBufferPoolHits (m_stats (pool_run xs s)) +
         newAllocations (m_stats (pool_run xs s))"
  using assms
proof (induction xs arbitrary: s)
  case Nil
  then show ?case by simp
next
  case (Cons x xs)
  from Cons.prems have "totalRequests (m_stats (pool_step x s)) =
         threadLocalHits (m_stats (pool_step x s)) +
         dynamicStringBufferPoolHits (m_stats (pool_step x s)) +
         newAllocations (m_stats (pool_step x s))"
    by (rule pool_step_balanced)
  then show ?case by (simp add: Cons.IH)
qed

lemma new_buffer_capacity:
  "capacity (reserve (m_initialCapacity dynamicStringBufferPool) (DynamicStringBuffer_new u)) = 256"
  by (simp add: capacity_def reserve_def dynamicStringBufferPool_def
      DynamicStringBufferPool_new_def DynamicStringBuffer_new_def STACK_BUFFER_SIZE_def)

lemma cycle_config:
  "m_initialCapacity (cycle t u s) = m_initialCapacity s"
  "m_maximumRetainedCapacity (cycle t u s) = m_maximumRetainedCapacity s"
  by (simp_all add: cycle_def lease_def StringBuilderLease_destroy_def dispose_def
      StringBuilderLease_new_def get_def returnToPool_def Let_def
      split: option.splits prod.splits)

lemma cycle_cached:
  assumes "t_cachedBuffer s t = Some b" and "capacity b \<le> m_maximumRetainedCapacity s"
  shows "t_cachedBuffer (cycle t u s) t = Some (clear b) \<and>
         threadLocalHits (m_stats (cycle t u s)) = threadLocalHits (m_stats s) + 1"
  using assms
  by (simp add: cycle_def lease_def StringBuilderLease_destroy_def dispose_def
      StringBuilderLease_new_def get_def returnToPool_def Let_def capacity_def clear_def)

lemma cycle_empty:
  assumes "t_cachedBuffer s t = None" and "retained_bounded s"
    and "capacity (reserve (m_initialCapacity s) (DynamicStringBuffer_new u))
           \<le> m_maximumRetainedCapacity s"
  shows "(\<exists>b. t_cachedBuffer (cycle t u s) t = Some b \<and>
              capacity b \<le> m_maximumRetainedCapacity s) \<and>
         threadLocalHits (m_stats (cycle t u s)) = threadLocalHits (m_stats s)"
proof (cases "m_pool s = []")
  case True
  then show ?thesis
    using assms
    by (simp add: cycle_def lease_def StringBuilderLease_destroy_def dispose_def
        StringBuilderLease_new_def get_def returnToPool_def Let_def)
next
  case False
  then have "last (m_pool s) \<in> set (m_pool s)" by simp
  then have "capacity (last (m_pool s)) \<le> m_maximumRetainedCapacity s"
    using assms(2) by (simp add: retained_bounded_def)
  then show ?thesis
    using False assms(1)
    by (simp add: cycle_def lease_def StringBuilderLease_destroy_def dispose_def
        StringBuilderLease_new_def get_def returnToPool_def Let_def capacity_def clear_def)
qed

lemma cycles_config:
  "m_initialCapacity (cycles t n u s) = m_initialCapacity s"
  "m_maximumRetainedCapacity (cycles t n u s) = m_maximumRetainedCapacity s"
  by (induction n) (simp_all add: cycle_config)

lemma cycles_hits:
  assumes "retained_bounded s"
    and "\<And>v. capacity (reserve (m_initialCapacity s) (DynamicStringBuffer_new v))
           \<le> m_maximumRetainedCapacity s"
  shows "(\<exists>b. t_cachedBuffer (cycles t (Suc n) u s) t = Some b \<and>
              capacity b \<le> m_maximumRetainedCapacity s) \<and>
         threadLocalHits (m_stats s) + n \<le> threadLocalHits (m_stats (cycles t (Suc n) u s))"
proof (induction n)
  case 0
  show ?case
  proof (cases "t_cachedBuffer s t")
    case None
    then show ?thesis using cycle_empty [OF None assms(1) assms(2)] by simp
  next
    case (Some b)
    then have "capacity b \<le> m_maximumRetainedCapacity s"
      using assms(1) by (simp add: retained_bounded_def)
    from cycle_cached [OF Some this, of "u 0"] show ?thesis
      by (simp add: clear_def capacity_def) (use \<open>capacity b \<le> _\<close> in \<open>simp add: capacity_def\<close>)
  qed
next
  case (Suc n)
  define s' where "s' = cycles t (Suc n) u s"
  from Suc obtain b where b: "t_cachedBuffer s' t = Some b"
      "capacity b \<le> m_maximumRetainedCapacity s"
    and h: "threadLocalHits (m_stats s) + n \<le> threadLocalHits (m_stats s')"
    unfolding s'_def by blast
  have m: "m_maximumRetainedCapacity s' = m_maximumRetainedCapacity s"
    by (simp add: s'_def cycles_config del: cycles.simps)
  have c: "t_cachedBuffer (cycle t (u (Suc n)) s') t = Some (clear b) \<and>
           threadLocalHits (m_stats (cycle t (u (Suc n)) s')) = threadLocalHits (m_stats s') + 1"
    using b m by (intro cycle_cached) simp_all
  have e: "cycles t (Suc (Suc n)) u s = cycle t (u (Suc n)) s'"
    by (simp add: s'_def)
  show ?case
    unfolding e using c b(2) h by (simp add: clear_def capacity_def)
qed

lemma get_isEmpty: "isEmpty (fst (get t u s))"
  by (simp add: get_def isEmpty_def clear_def reserve_def ensureCapacity_size
      DynamicStringBuffer_new_def Let_def split: option.splits)

lemma get_inv:
  assumes "\<forall>b \<in> set (m_pool s). buffer_inv b"
    and "\<forall>b. t_cachedBuffer s t = Some b \<longrightarrow> buffer_inv b"
  shows "buffer_inv (fst (get t u s))"
proof (cases "t_cachedBuffer s t")
  case (Some b)
  then show ?thesis using assms(2) by (simp add: get_def Let_def clear_inv)
next
  case None
  show ?thesis
  proof (cases "m_pool s = []")
    case True
    then show ?thesis
      using None by (simp add: get_def Let_def reserve_inv buffer_inv_new)
  next
    case False
    then have "buffer_inv (last (m_pool s))" using assms(1) by simp
    then show ?thesis using None False by (simp add: get_def Let_def clear_inv)
  qed
qed

lemma cycle_use_id: "cycle_use t u (\<lambda>b. b) s = cycle t u s"
  by (simp add: cycle_use_def cycle_def lease_def StringBuilderLease_new_def
      split: prod.splits)

lemma cycles_use_id: "cycles_use t n u (\<lambda>k b. b) s = cycles t n u s"
  by (induction n) (simp_all add: cycle_use_id)

lemma cycle_use_step:
  assumes "capacity (released t u use s) \<le> m_maximumRetainedCapacity s"
  shows "t_cachedBuffer (cycle_use t u use s) t = Some (released t u use s) \<and>
         threadLocalHits (m_stats (cycle_use t u use s)) =
           threadLocalHits (m_stats s) + (if t_cachedBuffer s t = None then 0 else 1)"
  using assms
  by (auto simp: cycle_use_def released_def lease_def StringBuilderLease_destroy_def
      dispose_def StringBuilderLease_new_def get_def returnToPool_def Let_def
      split: option.splits)

lemma cycles_use_hits:
  assumes "released_within t (Suc n) u use s"
  shows "t_cachedBuffer (cycles_use t (Suc n) u use s) t \<noteq> None \<and>
         threadLocalHits (m_stats s) + n
           \<le> threadLocalHits (m_stats (cycles_use t (Suc n) u use s))"
  using assms
proof (induction n)
  case 0
  then have "capacity (released t (u 0) (use 0) s) \<le> m_maximumRetainedCapacity s"
    by simp
  from cycle_use_step [OF this] show ?case by simp
next
  case (Suc n)
  define s' where "s' = cycles_use t (Suc n) u use s"
  from Suc.prems have w: "released_within t (Suc n) u use s"
    and c: "capacity (released t (u (Suc n)) (use (Suc n)) s') \<le> m_maximumRetainedCapacity s'"
    by (simp_all add: s'_def)
  from Suc.IH [OF w] have o: "t_cachedBuffer s' t \<noteq> None"
    and h: "threadLocalHits (m_stats s) + n \<le> threadLocalHits (m_stats s')"
    by (simp_all add: s'_def)
  have e: "cycles_use t (Suc (Suc n)) u use s = cycle_use t (u (Suc n)) (use (Suc n)) s'"
    by (simp add: s'_def)
  from cycle_use_step [OF c] o h show ?case
    unfolding e by simp
qed

lemma cycles_use_later_hit:
  assumes "released_within t (Suc (Suc k)) u use s"
  shows "threadLocalHits (m_stats (cycles_use t (Suc (Suc k)) u use s)) =
         threadLocalHits (m_stats (cycles_use t (Suc k) u use s)) + 1"
proof -
  define s' where "s' = cycles_use t (Suc k) u use s"
  from assms have w: "released_within t (Suc k) u use s"
    and c: "capacity (released t (u (Suc k)) (use (Suc k)) s') \<le> m_maximumRetainedCapacity s'"
    by (simp_all add: s'_def)
  from cycles_use_hits [OF w] have o: "t_cachedBuffer s' t \<noteq> None"
    by (simp add: s'_def)
  have e: "cycles_use t (Suc (Suc k)) u use s = cycle_use t (u (Suc k)) (use (Suc k)) s'"
    by (simp add: s'_def)
  from cycle_use_step [OF c] o show ?thesis
    unfolding e s'_def [symmetric] by simp
qed


lemma cycle_use_unfold:
  "cycle_use t u use s = returnToPool t (Some (released t u use s)) (snd (get t u s))"
  by (simp add: cycle_use_def released_def lease_def StringBuilderLease_destroy_def
      dispose_def StringBuilderLease_new_def split: prod.splits)

lemma cycle_use_bounded: "retained_bounded s \<Longrightarrow> retained_bounded (cycle_use t u use s)"
  by (simp add: cycle_use_unfold get_bounded returnToPool_bounded)

lemma cycle_use_config:
  "m_initialCapacity (cycle_use t u use s) = m_initialCapacity s"
  "m_maximumRetainedCapacity (cycle_use t u use s) = m_maximumRetainedCapacity s"
  using pool_step_config [of "ReturnToPool t (Some (released t u use s))" "snd (get t u s)"]
    pool_step_config [of "Get t u" s]
  by (simp_all add: cycle_use_unfold)

lemma cycles_use_bounded:
  "retained_bounded s \<Longrightarrow> retained_bounded (cycles_use t n u use s)"
  by (induction n) (simp_all add: cycle_use_bounded)

lemma cycles_use_config:
  "m_initialCapacity (cycles_use t n u use s) = m_initialCapacity s"
  "m_maximumRetainedCapacity (cycles_use t n u use s) = m_maximumRetainedCapacity s"
  by (induction n) (simp_all add: cycle_use_config)

lemma get_capacity_bounded:
  assumes "retained_bounded s"
    and "capacity (reserve (m_initialCapacity s) (DynamicStringBuffer_new u))
           \<le> m_maximumRetainedCapacity s"
  shows "capacity (fst (get t u s)) \<le> m_maximumRetainedCapacity s"
proof (cases "t_cachedBuffer s t")
  case (Some b)
  then have "capacity b \<le> m_maximumRetainedCapacity s"
    using assms(1) by (simp add: retained_bounded_def)
  with Some show ?thesis by (simp add: get_def Let_def capacity_def clear_def)
next
  case None
  show ?thesis
  proof (cases "m_pool s = []")
    case True
    with None assms(2) show ?thesis by (simp add: get_def Let_def)
  next
    case False
    then have "last (m_pool s) \<in> set (m_pool s)" by simp
    then have "capacity (last (m_pool s)) \<le> m_maximumRetainedCapacity s"
      using assms(1) by (simp add: retained_bounded_def)
    with None False show ?thesis by (simp add: get_def Let_def capacity_def clear_def)
  qed
qed

lemma released_within_kept:
  assumes "retained_bounded s"
    and "\<And>v. capacity (reserve (m_initialCapacity s) (DynamicStringBuffer_new v))
           \<le> m_maximumRetainedCapacity s"
    and "\<And>k b. isEmpty b \<Longrightarrow> capacity b \<le> m_maximumRetainedCapacity s \<Longrightarrow>
           capacity (use k b) \<le> m_maximumRetainedCapacity s"
  shows "released_within t n u use s"
proof (induction n)
  case 0
  show ?case by simp
next
  case (Suc n)
  define s' where "s' = cycles_use t n u use s"
  have b: "retained_bounded s'"
    and c: "m_initialCapacity s' = m_initialCapacity s"
      "m_maximumRetainedCapacity s' = m_maximumRetainedCapacity s"
    using assms(1) by (simp_all add: s'_def cycles_use_bounded cycles_use_config)
  have "capacity (fst (get t (u n) s')) \<le> m_maximumRetainedCapacity s'"
    using b assms(2) by (intro get_capacity_bounded) (simp_all add: c)
  then have "capacity (use n (fst (get t (u n) s'))) \<le> m_maximumRetainedCapacity s"
    using assms(3) [of "fst (get t (u n) s')" n] by (simp add: get_isEmpty c)
  then show ?case
    using Suc by (simp add: s'_def [symmetric] released_def c)
qed

lemma light_use_capacity:
  "isEmpty b \<Longrightarrow> capacity b \<le> 2048 \<Longrightarrow> capacity (light_use k b) \<le> 2048"
  by (auto simp: light_use_def append_string_def capacity_def isEmpty_def
      append_view_tier view_size_def ensureCapacity_def Let_def grown_def)

lemma heavy_capacity:
  "m_capacity b \<le> 2048 \<Longrightarrow> m_size b = 0 \<Longrightarrow> capacity (heavy_use k b) = max 3000 (grown (m_capacity b))"
  by (simp add: heavy_use_def append_string_def capacity_def append_view_tier view_size_def
      ensureCapacity_def Let_def STACK_BUFFER_SIZE_def)

lemma heavy_cycle:
  assumes "t_cachedBuffer s 0 = None" and "m_pool s = []"
    and "m_initialCapacity s = 256" and "m_maximumRetainedCapacity s = 2048"
  shows "t_cachedBuffer (cycle_use 0 u (heavy_use k) s) 0 = None \<and>
         m_pool (cycle_use 0 u (heavy_use k) s) = [] \<and>
         m_initialCapacity (cycle_use 0 u (heavy_use k) s) = 256 \<and>
         m_maximumRetainedCapacity (cycle_use 0 u (heavy_use k) s) = 2048 \<and>
         threadLocalHits (m_stats (cycle_use 0 u (heavy_use k) s)) = threadLocalHits (m_stats s)"
proof -
  define b where "b = reserve 256 (DynamicStringBuffer_new u)"
  have c: "m_capacity b = 256" "m_size b = 0"
    by (simp_all add: b_def reserve_def DynamicStringBuffer_new_def STACK_BUFFER_SIZE_def)
  have "capacity (heavy_use k b) = 3000"
    using heavy_capacity [of b k] by (simp add: c grown_def)
  then show ?thesis
    using assms
    by (simp add: cycle_use_def lease_def StringBuilderLease_destroy_def dispose_def
        StringBuilderLease_new_def get_def returnToPool_def Let_def b_def [symmetric])
qed

subsection \<open>The claims about the pool\<close>

text \<open>
  Claim C3. After every sequence of pool operations, and again after one more
  \<^verbatim>\<open>get()\<close>, \<^verbatim>\<open>totalRequests\<close> is the sum of \<^verbatim>\<open>threadLocalHits\<close>,
  \<^verbatim>\<open>dynamicStringBufferPoolHits\<close> and \<^verbatim>\<open>newAllocations\<close>. In any state
  \<^verbatim>\<open>get()\<close> adds one to \<^verbatim>\<open>totalRequests\<close> and one to exactly one of the other
  three counters: the thread-local one when the slot of the calling thread is occupied,
  else the shared-pool one when the shared vector is not empty, else the allocation one.
\<close>

theorem request_accounting:
  "(let s = pool_run ops (DynamicStringBufferPool_new ic mrc mps);
        st = stats s;
        st' = stats (snd (get t uninit s))
    in totalRequests st =
         threadLocalHits st + dynamicStringBufferPoolHits st + newAllocations st \<and>
       totalRequests st' =
         threadLocalHits st' + dynamicStringBufferPoolHits st' + newAllocations st') \<and>
   (let st = stats s0;
        st' = stats (snd (get t uninit s0))
    in totalRequests st' = totalRequests st + 1 \<and>
       (case t_cachedBuffer s0 t of
          Some cached \<Rightarrow>
            threadLocalHits st' = threadLocalHits st + 1 \<and>
            dynamicStringBufferPoolHits st' = dynamicStringBufferPoolHits st \<and>
            newAllocations st' = newAllocations st
        | None \<Rightarrow>
            if m_pool s0 \<noteq> [] then
              threadLocalHits st' = threadLocalHits st \<and>
              dynamicStringBufferPoolHits st' = dynamicStringBufferPoolHits st + 1 \<and>
              newAllocations st' = newAllocations st
            else
              threadLocalHits st' = threadLocalHits st \<and>
              dynamicStringBufferPoolHits st' = dynamicStringBufferPoolHits st \<and>
              newAllocations st' = newAllocations st + 1))"
proof -
  define s where "s = pool_run ops (DynamicStringBufferPool_new ic mrc mps)"
  have init: "totalRequests (m_stats (DynamicStringBufferPool_new ic mrc mps)) =
      threadLocalHits (m_stats (DynamicStringBufferPool_new ic mrc mps)) +
      dynamicStringBufferPoolHits (m_stats (DynamicStringBufferPool_new ic mrc mps)) +
      newAllocations (m_stats (DynamicStringBufferPool_new ic mrc mps))"
    by (simp add: DynamicStringBufferPool_new_def)
  have bal: "totalRequests (m_stats s) =
      threadLocalHits (m_stats s) + dynamicStringBufferPoolHits (m_stats s) +
      newAllocations (m_stats s)"
    unfolding s_def by (rule pool_run_balanced [OF init])
  have bal': "totalRequests (m_stats (snd (get t uninit s))) =
      threadLocalHits (m_stats (snd (get t uninit s))) +
      dynamicStringBufferPoolHits (m_stats (snd (get t uninit s))) +
      newAllocations (m_stats (snd (get t uninit s)))"
    using pool_step_balanced [OF bal, of "Get t uninit"] by simp
  have step: "totalRequests (m_stats (snd (get t uninit s0))) = totalRequests (m_stats s0) + 1 \<and>
       (case t_cachedBuffer s0 t of
          Some cached \<Rightarrow>
            threadLocalHits (m_stats (snd (get t uninit s0))) = threadLocalHits (m_stats s0) + 1 \<and>
            dynamicStringBufferPoolHits (m_stats (snd (get t uninit s0))) =
              dynamicStringBufferPoolHits (m_stats s0) \<and>
            newAllocations (m_stats (snd (get t uninit s0))) = newAllocations (m_stats s0)
        | None \<Rightarrow>
            if m_pool s0 \<noteq> [] then
              threadLocalHits (m_stats (snd (get t uninit s0))) = threadLocalHits (m_stats s0) \<and>
              dynamicStringBufferPoolHits (m_stats (snd (get t uninit s0))) =
                dynamicStringBufferPoolHits (m_stats s0) + 1 \<and>
              newAllocations (m_stats (snd (get t uninit s0))) = newAllocations (m_stats s0)
            else
              threadLocalHits (m_stats (snd (get t uninit s0))) = threadLocalHits (m_stats s0) \<and>
              dynamicStringBufferPoolHits (m_stats (snd (get t uninit s0))) =
                dynamicStringBufferPoolHits (m_stats s0) \<and>
              newAllocations (m_stats (snd (get t uninit s0))) = newAllocations (m_stats s0) + 1)"
    by (simp add: get_def Let_def split: option.splits)
  show ?thesis
    unfolding Let_def stats_def s_def [symmetric] using bal bal' step by blast
qed

text \<open>
  Claim C4. A buffer whose capacity exceeds \<^verbatim>\<open>m_maximumRetainedCapacity\<close> is
  dropped by \<^verbatim>\<open>returnToPool\<close>: the pool state is the one before the call, so the
  buffer is in no tier and the reported size is unchanged. A release keeps the retention
  bound, and after every sequence of pool operations on a new pool each buffer in the
  shared vector or in the slot of any thread has a capacity within the bound.
\<close>

theorem oversized_never_pooled:
  "(m_maximumRetainedCapacity s < capacity b \<longrightarrow>
      returnToPool t (Some b) s = s \<and>
      pool_size t' (returnToPool t (Some b) s) = pool_size t' s \<and>
      StringBuilderPool_size t' (returnToPool t (Some b) s) = StringBuilderPool_size t' s) \<and>
   (retained_bounded s \<longrightarrow> retained_bounded (returnToPool t (Some b) s)) \<and>
   (\<forall>x \<in> set (m_pool (pool_run ops (DynamicStringBufferPool_new ic mrc mps))).
      capacity x \<le> mrc) \<and>
   (\<forall>u x. t_cachedBuffer (pool_run ops (DynamicStringBufferPool_new ic mrc mps)) u = Some x
      \<longrightarrow> capacity x \<le> mrc)"
proof -
  have "retained_bounded (pool_run ops (DynamicStringBufferPool_new ic mrc mps))"
    by (rule pool_run_bounded [OF new_pool_bounded])
  moreover have
    "m_maximumRetainedCapacity (pool_run ops (DynamicStringBufferPool_new ic mrc mps)) = mrc"
    by (simp add: pool_run_config DynamicStringBufferPool_new_def)
  ultimately show ?thesis
    by (simp add: retained_bounded_def returnToPool_def returnToPool_bounded
        StringBuilderPool_size_def)
qed

theorem oversized_never_pooled_witness:
  "m_maximumRetainedCapacity dynamicStringBufferPool < capacity big_buffer \<and>
   returnToPool 0 (Some big_buffer) dynamicStringBufferPool = dynamicStringBufferPool \<and>
   pool_size 0 (returnToPool 0 (Some big_buffer) dynamicStringBufferPool) =
     pool_size 0 dynamicStringBufferPool \<and>
   retained_bounded dynamicStringBufferPool \<and>
   retained_bounded (returnToPool 0 (Some big_buffer) dynamicStringBufferPool) \<and>
   small_buffer \<in> set (m_pool (pool_run
      [ReturnToPool 0 (Some small_buffer), ReturnToPool 0 (Some small_buffer),
       ReturnToPool 0 (Some big_buffer)] (DynamicStringBufferPool_new 256 2048 24))) \<and>
   t_cachedBuffer (pool_run
      [ReturnToPool 0 (Some small_buffer), ReturnToPool 0 (Some small_buffer),
       ReturnToPool 0 (Some big_buffer)] (DynamicStringBufferPool_new 256 2048 24)) 0
     = Some small_buffer \<and>
   capacity small_buffer \<le> 2048"
proof -
  have h: "m_maximumRetainedCapacity dynamicStringBufferPool < capacity big_buffer"
    by (simp add: dynamicStringBufferPool_def DynamicStringBufferPool_new_def
        sample_capacities)
  have b: "retained_bounded dynamicStringBufferPool"
    by (simp add: dynamicStringBufferPool_def new_pool_bounded)
  have r: "m_pool (pool_run
      [ReturnToPool 0 (Some small_buffer), ReturnToPool 0 (Some small_buffer),
       ReturnToPool 0 (Some big_buffer)] (DynamicStringBufferPool_new 256 2048 24))
       = [small_buffer]"
     "t_cachedBuffer (pool_run
      [ReturnToPool 0 (Some small_buffer), ReturnToPool 0 (Some small_buffer),
       ReturnToPool 0 (Some big_buffer)] (DynamicStringBufferPool_new 256 2048 24)) 0
       = Some small_buffer"
    by (simp_all add: returnToPool_def DynamicStringBufferPool_new_def sample_capacities)
  show ?thesis
    using h b r oversized_never_pooled [of dynamicStringBufferPool big_buffer 0 0
        "[ReturnToPool 0 (Some small_buffer), ReturnToPool 0 (Some small_buffer),
          ReturnToPool 0 (Some big_buffer)]" 256 2048 24]
    by simp
qed

text \<open>
  Claim C7, as the code has it. From any pool state, \<open>n\<close> acquire-use-release cycles
  of one thread, each of which releases its buffer with a capacity within
  \<^verbatim>\<open>m_maximumRetainedCapacity\<close>, raise \<^verbatim>\<open>threadLocalHits\<close> by at least
  \<open>n - 1\<close>: after the first cycle the slot of the thread is occupied, and each later
  cycle is a thread-local hit. A cycle that does not touch the buffer is one of these
  when the singleton pool is in a state reached by pool operations, and when the pool
  has the retention bound and its fresh buffers are within it; for such cycles the bound
  on the hits holds without a condition.
\<close>

theorem sequential_cycles_hit_thread_slot:
  "(released_within t n uninit use s \<longrightarrow>
      threadLocalHits (stats s) + (n - 1)
        \<le> threadLocalHits (stats (cycles_use t n uninit use s))) \<and>
   (released_within t (Suc k) uninit use s \<longrightarrow>
      t_cachedBuffer (cycles_use t (Suc k) uninit use s) t \<noteq> None) \<and>
   (released_within t (Suc (Suc k)) uninit use s \<longrightarrow>
      threadLocalHits (stats (cycles_use t (Suc (Suc k)) uninit use s))
        = threadLocalHits (stats (cycles_use t (Suc k) uninit use s)) + 1) \<and>
   cycles_use t n uninit (\<lambda>k b. b) s = cycles t n uninit s \<and>
   released_within t n uninit (\<lambda>k b. b) (pool_run ops dynamicStringBufferPool) \<and>
   threadLocalHits (stats (pool_run ops dynamicStringBufferPool)) + (n - 1)
     \<le> threadLocalHits (stats (cycles t n uninit (pool_run ops dynamicStringBufferPool))) \<and>
   t_cachedBuffer (cycles t (Suc k) uninit (pool_run ops dynamicStringBufferPool)) t \<noteq> None \<and>
   threadLocalHits (stats (cycles t (Suc (Suc k)) uninit (pool_run ops dynamicStringBufferPool)))
     = threadLocalHits (stats (cycles t (Suc k) uninit (pool_run ops dynamicStringBufferPool))) + 1 \<and>
   (retained_bounded s \<and>
    (\<forall>v. capacity (reserve (m_initialCapacity s) (DynamicStringBuffer_new v))
           \<le> m_maximumRetainedCapacity s) \<longrightarrow>
      released_within t n uninit (\<lambda>k b. b) s \<and>
      threadLocalHits (stats s) + (n - 1) \<le> threadLocalHits (stats (cycles t n uninit s)))"
proof -
  have U: "threadLocalHits (m_stats s') + (n - 1)
             \<le> threadLocalHits (m_stats (cycles_use t n uninit use' s'))"
    if "released_within t n uninit use' s'" for s' use'
  proof (cases n)
    case 0
    then show ?thesis by simp
  next
    case (Suc m)
    then show ?thesis using cycles_use_hits [of t m uninit use' s'] that by simp
  qed
  have P: "released_within t n uninit (\<lambda>k b. b) s'"
    if "retained_bounded s'"
      and "\<And>v. capacity (reserve (m_initialCapacity s') (DynamicStringBuffer_new v))
                 \<le> m_maximumRetainedCapacity s'"
    for s'
    using that by (intro released_within_kept) simp_all
  have G: "threadLocalHits (m_stats s') + (n - 1)
             \<le> threadLocalHits (m_stats (cycles t n uninit s'))"
    if "retained_bounded s'"
      and "\<And>v. capacity (reserve (m_initialCapacity s') (DynamicStringBuffer_new v))
                 \<le> m_maximumRetainedCapacity s'"
    for s'
    using U [OF P [OF that]] by (simp add: cycles_use_id)
  define r where "r = pool_run ops dynamicStringBufferPool"
  have rb: "retained_bounded r"
    unfolding r_def dynamicStringBufferPool_def
    by (rule pool_run_bounded [OF new_pool_bounded])
  have cfg: "m_initialCapacity r = m_initialCapacity dynamicStringBufferPool"
    "m_maximumRetainedCapacity r = 2048"
    by (simp_all add: r_def pool_run_config)
       (simp add: dynamicStringBufferPool_def DynamicStringBufferPool_new_def)
  have fresh: "\<And>v. capacity (reserve (m_initialCapacity r) (DynamicStringBuffer_new v))
           \<le> m_maximumRetainedCapacity r"
    by (simp add: cfg new_buffer_capacity)
  note H = cycles_hits [OF rb fresh]
  have N1: "released_within t n uninit use s \<longrightarrow>
      threadLocalHits (m_stats s) + (n - 1)
        \<le> threadLocalHits (m_stats (cycles_use t n uninit use s))"
    using U [of "use" s] by blast
  have N2: "released_within t (Suc k) uninit use s \<longrightarrow>
      t_cachedBuffer (cycles_use t (Suc k) uninit use s) t \<noteq> None"
    using cycles_use_hits [of t k uninit "use" s] by blast
  have N3: "released_within t (Suc (Suc k)) uninit use s \<longrightarrow>
      threadLocalHits (m_stats (cycles_use t (Suc (Suc k)) uninit use s))
        = threadLocalHits (m_stats (cycles_use t (Suc k) uninit use s)) + 1"
    using cycles_use_later_hit [of t k uninit "use" s] by blast
  have N4: "cycles_use t n uninit (\<lambda>k b. b) s = cycles t n uninit s"
    by (rule cycles_use_id)
  have N5: "released_within t n uninit (\<lambda>k b. b) r"
    by (rule P [OF rb fresh])
  have A: "threadLocalHits (m_stats r) + (n - 1) \<le> threadLocalHits (m_stats (cycles t n uninit r))"
    by (rule G [OF rb fresh])
  have B: "t_cachedBuffer (cycles t (Suc k) uninit r) t \<noteq> None"
    using H [of t k uninit] by auto
  have C: "threadLocalHits (m_stats (cycles t (Suc (Suc k)) uninit r))
            = threadLocalHits (m_stats (cycles t (Suc k) uninit r)) + 1"
  proof -
    from H [of t k uninit] obtain b where
      b: "t_cachedBuffer (cycles t (Suc k) uninit r) t = Some b"
         "capacity b \<le> m_maximumRetainedCapacity r"
      by blast
    have "capacity b \<le> m_maximumRetainedCapacity (cycles t (Suc k) uninit r)"
      using b(2) by (simp add: cycles_config del: cycles.simps)
    from cycle_cached [OF b(1) this, of "uninit (Suc k)"] show ?thesis by simp
  qed
  have D: "retained_bounded s \<and>
    (\<forall>v. capacity (reserve (m_initialCapacity s) (DynamicStringBuffer_new v))
           \<le> m_maximumRetainedCapacity s) \<longrightarrow>
      released_within t n uninit (\<lambda>k b. b) s \<and>
      threadLocalHits (m_stats s) + (n - 1) \<le> threadLocalHits (m_stats (cycles t n uninit s))"
    using G [of s] P [of s] by blast
  show ?thesis
    unfolding stats_def r_def [symmetric] using N1 N2 N3 N4 N5 A B C D by blast
qed

theorem sequential_cycles_hit_thread_slot_witness:
  "released_within 0 3 sample_memory light_use dynamicStringBufferPool \<and>
   2 \<le> threadLocalHits (stats (cycles_use 0 3 sample_memory light_use dynamicStringBufferPool)) \<and>
   t_cachedBuffer (cycles_use 0 3 sample_memory light_use dynamicStringBufferPool) 0 \<noteq> None \<and>
   retained_bounded dynamicStringBufferPool \<and>
   (\<forall>v. capacity (reserve (m_initialCapacity dynamicStringBufferPool)
                     (DynamicStringBuffer_new v))
          \<le> m_maximumRetainedCapacity dynamicStringBufferPool) \<and>
   threadLocalHits (stats dynamicStringBufferPool) = 0 \<and>
   2 \<le> threadLocalHits (stats (cycles 0 3 sample_memory dynamicStringBufferPool)) \<and>
   threadLocalHits (stats (cycles 0 1 sample_memory dynamicStringBufferPool)) = 0"
proof -
  have b: "retained_bounded dynamicStringBufferPool"
    by (simp add: dynamicStringBufferPool_def new_pool_bounded)
  have c: "m_maximumRetainedCapacity dynamicStringBufferPool = 2048"
    by (simp add: dynamicStringBufferPool_def DynamicStringBufferPool_new_def)
  have f: "\<forall>v. capacity (reserve (m_initialCapacity dynamicStringBufferPool)
                     (DynamicStringBuffer_new v))
          \<le> m_maximumRetainedCapacity dynamicStringBufferPool"
    by (simp add: new_buffer_capacity c)
  have w: "released_within 0 3 sample_memory light_use dynamicStringBufferPool"
    using b f by (intro released_within_kept) (simp_all add: c light_use_capacity)
  have w2: "released_within 0 (Suc 2) sample_memory light_use dynamicStringBufferPool"
    using w by (simp add: numeral_3_eq_3 numeral_2_eq_2)
  have z: "threadLocalHits (stats dynamicStringBufferPool) = 0"
    by (simp add: stats_def dynamicStringBufferPool_def DynamicStringBufferPool_new_def)
  have m: "threadLocalHits (stats (cycles 0 1 sample_memory dynamicStringBufferPool)) = 0"
    by (simp add: stats_def cycle_def lease_def get_def StringBuilderLease_destroy_def
        dispose_def StringBuilderLease_new_def returnToPool_def
        dynamicStringBufferPool_def DynamicStringBufferPool_new_def Let_def)
  have e: "cycles_use 0 (Suc 2) sample_memory light_use dynamicStringBufferPool
           = cycles_use 0 3 sample_memory light_use dynamicStringBufferPool"
    by (simp add: numeral_3_eq_3 numeral_2_eq_2)
  show ?thesis
    using b f z m w
      sequential_cycles_hit_thread_slot
        [of 0 3 sample_memory light_use dynamicStringBufferPool 0 "[]"]
      sequential_cycles_hit_thread_slot
        [of 0 3 sample_memory light_use dynamicStringBufferPool 2 "[]", unfolded e] w2
    by simp
qed

text \<open>
  The claim for every acquire-then-release cycle fails: a holder that appends 3000
  bytes releases a buffer of capacity 3000, above the 2048 of the singleton pool, which
  \<^verbatim>\<open>returnToPool\<close> deletes. Three such cycles on the new pool leave
  \<^verbatim>\<open>threadLocalHits\<close> at 0, below \<open>3 - 1\<close>.
\<close>

theorem heavy_cycles_counterexample:
  "threadLocalHits (stats dynamicStringBufferPool) = 0 \<and>
   threadLocalHits (stats (cycles_use 0 3 sample_memory heavy_use dynamicStringBufferPool)) = 0 \<and>
   \<not> (threadLocalHits (stats dynamicStringBufferPool) + (3 - 1)
        \<le> threadLocalHits (stats (cycles_use 0 3 sample_memory heavy_use dynamicStringBufferPool)))"
proof -
  define s0 where "s0 = dynamicStringBufferPool"
  have i: "t_cachedBuffer s0 0 = None \<and> m_pool s0 = [] \<and> m_initialCapacity s0 = 256 \<and>
           m_maximumRetainedCapacity s0 = 2048 \<and> threadLocalHits (m_stats s0) = 0"
    by (simp add: s0_def dynamicStringBufferPool_def DynamicStringBufferPool_new_def)
  define s1 where "s1 = cycle_use 0 (sample_memory 0) (heavy_use 0) s0"
  have i1: "t_cachedBuffer s1 0 = None \<and> m_pool s1 = [] \<and> m_initialCapacity s1 = 256 \<and>
           m_maximumRetainedCapacity s1 = 2048 \<and> threadLocalHits (m_stats s1) = 0"
    unfolding s1_def using heavy_cycle [of s0 "sample_memory 0" 0] i by simp
  define s2 where "s2 = cycle_use 0 (sample_memory (Suc 0)) (heavy_use (Suc 0)) s1"
  have i2: "t_cachedBuffer s2 0 = None \<and> m_pool s2 = [] \<and> m_initialCapacity s2 = 256 \<and>
           m_maximumRetainedCapacity s2 = 2048 \<and> threadLocalHits (m_stats s2) = 0"
    unfolding s2_def using heavy_cycle [of s1 "sample_memory (Suc 0)" "Suc 0"] i1 by simp
  define s3 where "s3 = cycle_use 0 (sample_memory (Suc (Suc 0))) (heavy_use (Suc (Suc 0))) s2"
  have i3: "threadLocalHits (m_stats s3) = 0"
    unfolding s3_def using heavy_cycle [of s2 "sample_memory (Suc (Suc 0))" "Suc (Suc 0)"] i2 by simp
  have e: "cycles_use 0 3 sample_memory heavy_use s0 = s3"
    by (simp add: numeral_3_eq_3 s3_def s2_def s1_def)
  show ?thesis
    unfolding s0_def [symmetric] using i i3 by (simp add: stats_def e)
qed

text \<open>
  Claim C9. After \<^verbatim>\<open>StringBuilderPool::clear()\<close> the four counters are zero, the
  shared vector is empty and the slot of the calling thread is empty; the value returned
  is the size the pool reported before the call.
\<close>

theorem facade_clear_resets_statistics:
  "threadLocalHits (stats (snd (StringBuilderPool_clear t s))) = 0 \<and>
   dynamicStringBufferPoolHits (stats (snd (StringBuilderPool_clear t s))) = 0 \<and>
   newAllocations (stats (snd (StringBuilderPool_clear t s))) = 0 \<and>
   totalRequests (stats (snd (StringBuilderPool_clear t s))) = 0 \<and>
   m_pool (snd (StringBuilderPool_clear t s)) = [] \<and>
   t_cachedBuffer (snd (StringBuilderPool_clear t s)) t = None \<and>
   fst (StringBuilderPool_clear t s) = StringBuilderPool_size t s"
  by (simp add: StringBuilderPool_clear_def pool_clear_def resetStats_def reset_def
      stats_def StringBuilderPool_size_def pool_size_def Let_def)

section \<open>Properties of the lease\<close>

text \<open>
  Claim C6. On a Disposed lease \<^verbatim>\<open>create()\<close>, \<^verbatim>\<open>buffer()\<close> and
  \<^verbatim>\<open>toString()\<close> throw the invalid-operation error and return nothing. On an Active
  lease they return the builder, the buffer and the string of the leased buffer. A lease
  is Disposed after \<^verbatim>\<open>dispose()\<close> (which the destructor runs) and after it was
  moved from, by construction or by assignment; a lease from
  \<^verbatim>\<open>StringBuilderPool::lease()\<close> is Active and holds a buffer, and the lease
  operations keep that an Active lease holds a buffer.
\<close>

theorem disposed_lease_rejects_access:
  "(\<not> m_valid l \<longrightarrow>
      create l = Inl throwInvalidOperation \<and>
      buffer l = Inl throwInvalidOperation \<and>
      lease_toString l = Inl throwInvalidOperation) \<and>
   (m_valid l \<and> lease_inv l \<longrightarrow>
      (\<exists>b. m_buffer l = Some b \<and>
           create l = Inr (StringBuilder b) \<and>
           buffer l = Inr b \<and>
           lease_toString l = Inr (toString b))) \<and>
   \<not> m_valid (fst (dispose t l s)) \<and>
   \<not> m_valid (snd (StringBuilderLease_move l)) \<and>
   \<not> m_valid (fst (snd (lease_move_assign t l' l s))) \<and>
   m_valid (fst (lease t uninit s)) \<and>
   lease_inv (fst (lease t uninit s)) \<and>
   (lease_inv l \<longrightarrow>
      lease_inv (fst (dispose t l s)) \<and>
      lease_inv (fst (StringBuilderLease_move l)) \<and>
      lease_inv (snd (StringBuilderLease_move l)) \<and>
      lease_inv (fst (lease_move_assign t l' l s)) \<and>
      lease_inv (fst (snd (lease_move_assign t l' l s))))"
  by (auto simp: create_def buffer_def lease_toString_def lease_inv_def dispose_def
      StringBuilderLease_move_def lease_move_assign_def lease_def StringBuilderLease_new_def
      Let_def split: prod.splits option.splits)

theorem disposed_lease_rejects_access_witness:
  "\<not> m_valid (snd (StringBuilderLease_move (StringBuilderLease_new (Some small_buffer)))) \<and>
   create (snd (StringBuilderLease_move (StringBuilderLease_new (Some small_buffer))))
     = Inl (runtime_error ''Tried to access StringBuilder after it was returned to pool'') \<and>
   buffer (snd (StringBuilderLease_move (StringBuilderLease_new (Some small_buffer))))
     = Inl (runtime_error ''Tried to access StringBuilder after it was returned to pool'') \<and>
   lease_toString (snd (StringBuilderLease_move (StringBuilderLease_new (Some small_buffer))))
     = Inl (runtime_error ''Tried to access StringBuilder after it was returned to pool'') \<and>
   m_valid (StringBuilderLease_new (Some small_buffer)) \<and>
   lease_inv (StringBuilderLease_new (Some small_buffer)) \<and>
   create (StringBuilderLease_new (Some small_buffer)) = Inr (StringBuilder small_buffer) \<and>
   buffer (StringBuilderLease_new (Some small_buffer)) = Inr small_buffer \<and>
   lease_toString (StringBuilderLease_new (Some small_buffer)) = Inr (toString small_buffer) \<and>
   lease_inv (fst (dispose 0 (StringBuilderLease_new (Some small_buffer))
                     dynamicStringBufferPool)) \<and>
   lease_inv (fst (StringBuilderLease_move (StringBuilderLease_new (Some small_buffer))))"
proof -
  have d: "\<not> m_valid (snd (StringBuilderLease_move (StringBuilderLease_new (Some small_buffer))))"
    by (simp add: StringBuilderLease_move_def)
  have a: "m_valid (StringBuilderLease_new (Some small_buffer))"
    "lease_inv (StringBuilderLease_new (Some small_buffer))"
    "m_buffer (StringBuilderLease_new (Some small_buffer)) = Some small_buffer"
    by (simp_all add: StringBuilderLease_new_def lease_inv_def)
  show ?thesis
    using d a
      disposed_lease_rejects_access
        [of "snd (StringBuilderLease_move (StringBuilderLease_new (Some small_buffer)))"]
      disposed_lease_rejects_access
        [of "StringBuilderLease_new (Some small_buffer)" 0 dynamicStringBufferPool]
    by (simp add: throwInvalidOperation_def)
qed

text \<open>
  Claim C10, as the code has it. A move assignment between two distinct leases whose
  destination is Active with buffer \<open>B\<close> hands \<open>B\<close> to \<^verbatim>\<open>returnToPool\<close> once; the
  destination then has the pointer and flag of the source, so it is Active with the
  buffer of an Active source and Disposed after a Disposed source; the source is
  Disposed with a null pointer. Destroying the destination later releases the buffer
  of the source once, and destroying the source releases nothing.
\<close>

theorem lease_move_assign_releases_once:
  assumes "m_valid this" and "m_buffer this = Some B"
  shows "lease_move_assign t this other s =
           (\<lparr> m_buffer = m_buffer other, m_valid = m_valid other \<rparr>,
            \<lparr> m_buffer = None, m_valid = False \<rparr>,
            returnToPool t (Some B) s) \<and>
         (if m_valid other
          then m_valid (fst (lease_move_assign t this other s)) \<and>
               buffer (fst (lease_move_assign t this other s)) = buffer other \<and>
               snd (dispose t (fst (lease_move_assign t this other s)) s') =
                 returnToPool t (m_buffer other) s'
          else \<not> m_valid (fst (lease_move_assign t this other s)) \<and>
               buffer (fst (lease_move_assign t this other s)) = Inl throwInvalidOperation \<and>
               snd (dispose t (fst (lease_move_assign t this other s)) s') = s') \<and>
         \<not> m_valid (fst (snd (lease_move_assign t this other s))) \<and>
         m_buffer (fst (snd (lease_move_assign t this other s))) = None \<and>
         snd (dispose t (fst (snd (lease_move_assign t this other s))) s') = s'"
  using assms
  by (simp add: lease_move_assign_def dispose_def buffer_def Let_def)

theorem lease_move_assign_releases_once_witness:
  "m_valid (StringBuilderLease_new (Some small_buffer)) \<and>
   m_buffer (StringBuilderLease_new (Some small_buffer)) = Some small_buffer \<and>
   lease_move_assign 0 (StringBuilderLease_new (Some small_buffer))
       (StringBuilderLease_new (Some big_buffer)) dynamicStringBufferPool =
     (StringBuilderLease_new (Some big_buffer),
      \<lparr> m_buffer = None, m_valid = False \<rparr>,
      returnToPool 0 (Some small_buffer) dynamicStringBufferPool) \<and>
   buffer (fst (lease_move_assign 0 (StringBuilderLease_new (Some small_buffer))
       (StringBuilderLease_new (Some big_buffer)) dynamicStringBufferPool)) = Inr big_buffer"
proof -
  have h: "m_valid (StringBuilderLease_new (Some small_buffer))"
    "m_buffer (StringBuilderLease_new (Some small_buffer)) = Some small_buffer"
    by (simp_all add: StringBuilderLease_new_def)
  have o: "m_valid (StringBuilderLease_new (Some big_buffer))"
    "buffer (StringBuilderLease_new (Some big_buffer)) = Inr big_buffer"
    by (simp_all add: StringBuilderLease_new_def buffer_def)
  show ?thesis
    using h o lease_move_assign_releases_once [OF h,
        of 0 "StringBuilderLease_new (Some big_buffer)" dynamicStringBufferPool
           dynamicStringBufferPool]
    by (simp add: StringBuilderLease_new_def)
qed

text \<open>
  The claim as worded fails for a source that is already Disposed (a lease that was
  moved from): the destination is then Disposed, not Active.
\<close>

theorem lease_move_assign_counterexample:
  "m_valid (StringBuilderLease_new (Some small_buffer)) \<and>
   m_buffer (StringBuilderLease_new (Some small_buffer)) = Some small_buffer \<and>
   \<not> m_valid (snd (StringBuilderLease_move (StringBuilderLease_new (Some big_buffer)))) \<and>
   \<not> m_valid (fst (lease_move_assign 0 (StringBuilderLease_new (Some small_buffer))
        (snd (StringBuilderLease_move (StringBuilderLease_new (Some big_buffer))))
        dynamicStringBufferPool)) \<and>
   m_buffer (fst (lease_move_assign 0 (StringBuilderLease_new (Some small_buffer))
        (snd (StringBuilderLease_move (StringBuilderLease_new (Some big_buffer))))
        dynamicStringBufferPool)) = None \<and>
   buffer (fst (lease_move_assign 0 (StringBuilderLease_new (Some small_buffer))
        (snd (StringBuilderLease_move (StringBuilderLease_new (Some big_buffer))))
        dynamicStringBufferPool)) = Inl throwInvalidOperation"
  by (simp add: StringBuilderLease_new_def StringBuilderLease_move_def
      lease_move_assign_def dispose_def buffer_def)

end
